theory Spec2Isabelle
  imports Main "HOL-Library.Multiset" "HOL-Library.Sublist"
begin

section \<open>The deployment progress tracker (provisioning\_progress\_display.go)\<close>

subsection \<open>Data observed from the deployment engine\<close>

text \<open>
  The operations come from the Azure SDK (\<open>armresources.DeploymentOperation\<close>), where every
  field is a pointer. A pointer is an \<open>option\<close> here; dereferencing \<open>None\<close> is the
  nil-pointer panic of the Go runtime. \<open>time.Time\<close> is the instant as an integer (nanoseconds),
  \<open>time.Duration\<close> an integer number of nanoseconds.
\<close>

record TargetResource =
  ID :: "string option"
  ResourceName :: "string option"
  ResourceType :: "string option"

record DeploymentOperationProperties =
  TargetResource :: "TargetResource option"
  ProvisioningState :: "string option"
  Timestamp :: "int option"
  Duration :: "string option"

record DeploymentOperation =
  Properties :: "DeploymentOperationProperties option"

type_synonym operation = "DeploymentOperation option"

datatype error = Error string

text \<open>Pointer chains of the source; \<open>None\<close> is a nil dereference somewhere on the chain.\<close>

definition op_Properties :: "operation \<Rightarrow> DeploymentOperationProperties option" where
  "op_Properties opn = Option.bind opn Properties"

definition op_TargetResource :: "operation \<Rightarrow> TargetResource option" where
  "op_TargetResource opn = Option.bind (op_Properties opn) TargetResource"

definition op_ResourceName :: "operation \<Rightarrow> string option" where
  "op_ResourceName opn = Option.bind (op_TargetResource opn) ResourceName"

definition op_ResourceType :: "operation \<Rightarrow> string option" where
  "op_ResourceType opn = Option.bind (op_TargetResource opn) ResourceType"

definition op_ID :: "operation \<Rightarrow> string option" where
  "op_ID opn = Option.bind (op_TargetResource opn) ID"

definition op_ProvisioningState :: "operation \<Rightarrow> string option" where
  "op_ProvisioningState opn = Option.bind (op_Properties opn) ProvisioningState"

definition op_Timestamp :: "operation \<Rightarrow> int option" where
  "op_Timestamp opn = Option.bind (op_Properties opn) Timestamp"

definition op_Duration :: "operation \<Rightarrow> string option" where
  "op_Duration opn = Option.bind (op_Properties opn) Duration"

text \<open>The SDK's constants \<open>armresources.ProvisioningStateSucceeded\<close>, \<open>...Running\<close>, \<open>...Failed\<close>.\<close>

definition ProvisioningStateSucceeded :: string where
  "ProvisioningStateSucceeded = ''Succeeded''"

definition ProvisioningStateRunning :: string where
  "ProvisioningStateRunning = ''Running''"

definition ProvisioningStateFailed :: string where
  "ProvisioningStateFailed = ''Failed''"

subsection \<open>Tracker state, collaborators and console output\<close>

text \<open>
  The struct \<open>ProvisioningProgressDisplay\<close>: the two fields it owns. Its three collaborators
  (\<open>resourceManager\<close>, \<open>console\<close>, \<open>deployment\<close>) are interfaces; what they answer during
  one call of \<open>ReportProgress\<close> is the record \<open>world\<close> below.
\<close>

record ProvisioningProgressDisplay =
  deploymentStarted :: bool
  displayedResources :: "string \<rightharpoonup> bool"

definition NewProvisioningProgressDisplay :: ProvisioningProgressDisplay where
  "NewProvisioningProgressDisplay = \<lparr>deploymentStarted = False, displayedResources = Map.empty\<rparr>"

text \<open>Reading a Go \<open>map[string]bool\<close>: a missing key reads as \<open>false\<close>.\<close>

definition displayed :: "(string \<rightharpoonup> bool) \<Rightarrow> string \<Rightarrow> bool" where
  "displayed m k = (case m k of None \<Rightarrow> False | Some b \<Rightarrow> b)"

text \<open>
  What the remote services, the environment and the terminal answer during one tick.
  \<open>rm_GetResourceTypeDisplayName\<close> takes subscription id, resource id and resource type;
  within one tick the same question gets the same answer.
\<close>

record world =
  deployment_Get :: "error option"
  deployment_DeploymentUrl :: "error + string"
  deployment_SubscriptionId :: string
  Getenv_AZD_DEMO_MODE :: string
  rm_GetDeploymentResourceOperations :: "int option \<Rightarrow> error + operation list"
  rm_GetResourceTypeDisplayName :: "string \<Rightarrow> string \<Rightarrow> string \<Rightarrow> error + string"
  console_IsSpinnerInteractive :: bool

text \<open>
  Functions the file calls whose code is not part of the sources at hand, taken as parameters:
  the static translation table \<open>azapi.GetResourceTypeDisplayName\<close>, \<open>convert.ParseDuration\<close>,
  the colour codes that \<open>output.WithLinkFormat\<close> puts around its text, the rendering of a
  timestamp by \<open>Local().Format("2006-01-02 15:04:05")\<close>, and the standard library's
  \<open>sort.Slice\<close> (given the comparison and the slice, it returns the rearranged slice).
\<close>

record deps =
  azapi_GetResourceTypeDisplayName :: "string \<Rightarrow> string"
  convert_ParseDuration :: "string \<Rightarrow> error + int"
  link_colour_on :: string
  link_colour_off :: string
  format_local_time :: "int \<Rightarrow> string"
  sort_Slice :: "(operation \<Rightarrow> operation \<Rightarrow> bool) \<Rightarrow> operation list \<Rightarrow> operation list"

datatype ux_item =
  MultilineMessage "string list"
  | DisplayedResource string string string int

datatype event =
  LogPrintf string
  | EnsureBlankLine
  | MessageUxItem ux_item
  | ShowSpinner string

text \<open>How a call ends: it returns (with or without an error), or the runtime panics.\<close>

datatype outcome = Returned "error option" | Panicked

subsection \<open>Standard-library helpers\<close>

text \<open>\<open>strconv.ParseBool\<close>: the twelve accepted spellings; anything else is an error.\<close>

definition strconv_ParseBool :: "string \<Rightarrow> bool option" where
  "strconv_ParseBool s =
     (if s \<in> set [''1'', ''t'', ''T'', ''TRUE'', ''true'', ''True''] then Some True
      else if s \<in> set [''0'', ''f'', ''F'', ''FALSE'', ''false'', ''False''] then Some False
      else None)"

text \<open>\<open>Duration.Truncate(m)\<close>: rounds toward zero to a multiple of \<open>m\<close>; unchanged if \<open>m \<le> 0\<close>.\<close>

definition Truncate :: "int \<Rightarrow> int \<Rightarrow> int" where
  "Truncate dur m = (if m \<le> 0 then dur else dur - sgn dur * (\<bar>dur\<bar> mod m))"

definition Millisecond :: int where
  "Millisecond = 1000000"

text \<open>\<open>strings.Join\<close>.\<close>

fun strings_Join :: "string list \<Rightarrow> string \<Rightarrow> string" where
  "strings_Join [] sep = []"
| "strings_Join [x] sep = x"
| "strings_Join (x # y # ys) sep = x @ sep @ strings_Join (y # ys) sep"

text \<open>\<open>Error()\<close> of an error value, as \<open>%v\<close> prints it.\<close>

fun error_text :: "error \<Rightarrow> string" where
  "error_text (Error msg) = msg"

text \<open>The comparison handed to \<open>sort.Slice\<close>: \<open>time.Time.Before\<close> on the two timestamps.\<close>

definition timestamp_Before :: "operation \<Rightarrow> operation \<Rightarrow> bool" where
  "timestamp_Before a b =
     (case (op_Timestamp a, op_Timestamp b) of
        (Some ta, Some tb) \<Rightarrow> ta < tb
      | _ \<Rightarrow> False)"

subsection \<open>ReportProgress, first part: the announcement (lines 52 to 88)\<close>

text \<open>
  The result is \<open>(Some outcome, _, _)\<close> when the function returns from inside the block and
  \<open>(None, _, _)\<close> when control goes on to the operations query.
\<close>

definition announce ::
  "deps \<Rightarrow> world \<Rightarrow> ProvisioningProgressDisplay \<Rightarrow>
     outcome option \<times> ProvisioningProgressDisplay \<times> event list" where
  "announce d w display =
     (if \<not> deploymentStarted display then
        (case deployment_Get w of
           Some err \<Rightarrow>
             (Some (Returned None), display,
              [LogPrintf (''error while reporting progress: '' @ error_text err)])
         | None \<Rightarrow>
             (let display' = display\<lparr>deploymentStarted := True\<rparr> in
              case deployment_DeploymentUrl w of
                Inl err \<Rightarrow> (Some (Returned (Some err)), display', [])
              | Inr deploymentUrl \<Rightarrow>
                  (let deploymentLink =
                         link_colour_on d @ deploymentUrl @ [CHR 0x0A] @ link_colour_off d;
                       lines =
                         (if strconv_ParseBool (Getenv_AZD_DEMO_MODE w) = Some True
                          then [''You can view detailed progress in the Azure Portal.'',
                                [CHR 0x0A]]
                          else [''You can view detailed progress in the Azure Portal:'',
                                deploymentLink])
                   in (None, display',
                       [EnsureBlankLine, MessageUxItem (MultilineMessage lines)]))))
      else (None, display, []))"

subsection \<open>ReportProgress, second part: classification (lines 96 to 115)\<close>

text \<open>
  The loop over \<open>operations\<close>, with the three slices it appends to. \<open>None\<close> is a nil
  dereference: of the operation or its \<open>Properties\<close>, of \<open>ResourceName\<close>, or of
  \<open>ProvisioningState\<close> (read only for a resource that has not been displayed yet).
  A \<open>TargetResource\<close> that is nil is the one case the source tests for.
\<close>

fun classifyOperations ::
  "(string \<rightharpoonup> bool) \<Rightarrow> operation list \<Rightarrow>
     operation list \<times> operation list \<times> operation list \<Rightarrow>
     (operation list \<times> operation list \<times> operation list) option" where
  "classifyOperations disp [] acc = Some acc"
| "classifyOperations disp (opn # ops) (newlyDeployed, newlyFailed, running) =
     (case op_Properties opn of
        None \<Rightarrow> None
      | Some props \<Rightarrow>
          (case TargetResource props of
             None \<Rightarrow> classifyOperations disp ops (newlyDeployed, newlyFailed, running)
           | Some target \<Rightarrow>
               (case ResourceName target of
                  None \<Rightarrow> None
                | Some resourceId \<Rightarrow>
                    if \<not> displayed disp resourceId then
                      (case ProvisioningState props of
                         None \<Rightarrow> None
                       | Some state \<Rightarrow>
                           if state = ProvisioningStateSucceeded then
                             classifyOperations disp ops
                               (newlyDeployed @ [opn], newlyFailed, running)
                           else if state = ProvisioningStateRunning then
                             classifyOperations disp ops
                               (newlyDeployed, newlyFailed, running @ [opn])
                           else if state = ProvisioningStateFailed then
                             classifyOperations disp ops
                               (newlyDeployed, newlyFailed @ [opn], running)
                           else classifyOperations disp ops (newlyDeployed, newlyFailed, running))
                    else classifyOperations disp ops (newlyDeployed, newlyFailed, running))))"

text \<open>
  The comparison dereferences both timestamps. \<open>sort.Slice\<close> never calls it on a slice of
  fewer than two elements, and on a longer one every element takes part in a comparison,
  so the sort panics exactly when such a slice holds a nil timestamp.
\<close>

definition sort_panics :: "operation list \<Rightarrow> bool" where
  "sort_panics xs = (2 \<le> length xs \<and> list_ex (\<lambda>opn. op_Timestamp opn = None) xs)"

subsection \<open>logNewlyCreatedResources (lines 129 to 212)\<close>

text \<open>Dynamic lookup of the type's display name, with the static table as fallback on error.\<close>

definition typeDisplayName :: "deps \<Rightarrow> world \<Rightarrow> string \<Rightarrow> string \<Rightarrow> string" where
  "typeDisplayName d w resourceId resourceTypeName =
     (case rm_GetResourceTypeDisplayName w (deployment_SubscriptionId w) resourceId resourceTypeName of
        Inl err \<Rightarrow> azapi_GetResourceTypeDisplayName d resourceTypeName
      | Inr name \<Rightarrow> name)"

text \<open>The \<open>ux.DisplayedResource\<close> of lines 151 to 163; \<open>None\<close> is a nil dereference.\<close>

definition uxRow :: "deps \<Rightarrow> operation \<Rightarrow> string \<Rightarrow> ux_item option" where
  "uxRow d resource resourceTypeDisplayName =
     (case op_Duration resource of
        None \<Rightarrow> None
      | Some durationText \<Rightarrow>
          (case op_ResourceName resource of
             None \<Rightarrow> None
           | Some name \<Rightarrow>
               (case op_ProvisioningState resource of
                  None \<Rightarrow> None
                | Some state \<Rightarrow>
                    Some (DisplayedResource resourceTypeDisplayName name state
                            (Truncate
                               (case convert_ParseDuration d durationText of
                                  Inl err \<Rightarrow> 0
                                | Inr duration \<Rightarrow> duration)
                               Millisecond)))))"

text \<open>The text of the \<open>log.Printf\<close> of lines 168 to 173.\<close>

definition logLine :: "deps \<Rightarrow> operation \<Rightarrow> string \<Rightarrow> string option" where
  "logLine d resource resourceTypeName =
     (case op_Timestamp resource of
        None \<Rightarrow> None
      | Some ts \<Rightarrow>
          (case op_ProvisioningState resource of
             None \<Rightarrow> None
           | Some state \<Rightarrow>
               (case op_ResourceName resource of
                  None \<Rightarrow> None
                | Some name \<Rightarrow>
                    Some (format_local_time d ts @ '' - '' @ state @ '' '' @ resourceTypeName
                            @ '': '' @ name))))"

text \<open>
  One round of the first loop. The boolean is \<open>True\<close> when the round panicked; the events
  are those written before the panic.
\<close>

definition logResource ::
  "deps \<Rightarrow> world \<Rightarrow> operation \<Rightarrow> ProvisioningProgressDisplay \<Rightarrow>
     bool \<times> ProvisioningProgressDisplay \<times> event list" where
  "logResource d w resource display =
     (case op_ResourceType resource of
        None \<Rightarrow> (True, display, [])
      | Some resourceTypeName \<Rightarrow>
          (case op_ID resource of
             None \<Rightarrow> (True, display, [])
           | Some resourceId \<Rightarrow>
               (let resourceTypeDisplayName = typeDisplayName d w resourceId resourceTypeName in
                case (if resourceTypeDisplayName \<noteq> []
                      then map_option (\<lambda>item. ([MessageUxItem item], resourceTypeDisplayName))
                             (uxRow d resource resourceTypeDisplayName)
                      else Some ([], resourceTypeName)) of
                  None \<Rightarrow> (True, display, [])
                | Some (ux, loggedTypeName) \<Rightarrow>
                    (case logLine d resource loggedTypeName of
                       None \<Rightarrow> (True, display, ux)
                     | Some line \<Rightarrow>
                         (case op_ResourceName resource of
                            None \<Rightarrow> (True, display, ux @ [LogPrintf line])
                          | Some name \<Rightarrow>
                              (False,
                               display\<lparr>displayedResources :=
                                          (displayedResources display)(name \<mapsto> True)\<rparr>,
                               ux @ [LogPrintf line]))))))"

fun logResources ::
  "deps \<Rightarrow> world \<Rightarrow> operation list \<Rightarrow> ProvisioningProgressDisplay \<Rightarrow>
     bool \<times> ProvisioningProgressDisplay \<times> event list" where
  "logResources d w [] display = (False, display, [])"
| "logResources d w (resource # resources) display =
     (case logResource d w resource display of
        (True, display', ev) \<Rightarrow> (True, display', ev)
      | (False, display', ev) \<Rightarrow>
          (case logResources d w resources display' of
             (panicked, display'', ev') \<Rightarrow> (panicked, display'', ev @ ev')))"

text \<open>The second loop: display names of the resource types in progress.\<close>

fun inProgressNames :: "deps \<Rightarrow> world \<Rightarrow> operation list \<Rightarrow> string list option" where
  "inProgressNames d w [] = Some []"
| "inProgressNames d w (inProgResource # rest) =
     (case op_ResourceType inProgResource of
        None \<Rightarrow> None
      | Some resourceTypeName \<Rightarrow>
          (case op_ID inProgResource of
             None \<Rightarrow> None
           | Some resourceId \<Rightarrow>
               (case inProgressNames d w rest of
                  None \<Rightarrow> None
                | Some names \<Rightarrow>
                    (let resourceTypeDisplayName =
                           typeDisplayName d w resourceId resourceTypeName
                     in Some (if resourceTypeDisplayName \<noteq> []
                              then resourceTypeDisplayName # names else names)))))"

definition spinner :: "world \<Rightarrow> string list \<Rightarrow> event list" where
  "spinner w inProgress =
     (if \<not> console_IsSpinnerInteractive w then []
      else if 0 < length inProgress then
        [ShowSpinner (''Creating/Updating resources ('' @ strings_Join inProgress '', '' @ '')'')]
      else [ShowSpinner ''Creating/Updating resources''])"

definition logNewlyCreatedResources ::
  "deps \<Rightarrow> world \<Rightarrow> ProvisioningProgressDisplay \<Rightarrow> operation list \<Rightarrow> operation list \<Rightarrow>
     bool \<times> ProvisioningProgressDisplay \<times> event list" where
  "logNewlyCreatedResources d w display resources inProgressResources =
     (case logResources d w resources display of
        (True, display', ev) \<Rightarrow> (True, display', ev)
      | (False, display', ev) \<Rightarrow>
          (case inProgressNames d w inProgressResources of
             None \<Rightarrow> (True, display', ev)
           | Some inProgress \<Rightarrow> (False, display', ev @ spinner w inProgress)))"

subsection \<open>ReportProgress (lines 50 to 127)\<close>

definition ReportProgress ::
  "deps \<Rightarrow> world \<Rightarrow> int option \<Rightarrow> ProvisioningProgressDisplay \<Rightarrow>
     outcome \<times> ProvisioningProgressDisplay \<times> event list" where
  "ReportProgress d w queryStart display =
     (case announce d w display of
        (Some out, display', ev) \<Rightarrow> (out, display', ev)
      | (None, display', ev) \<Rightarrow>
          (case rm_GetDeploymentResourceOperations w queryStart of
             Inl err \<Rightarrow> (Returned (Some err), display', ev)
           | Inr operations \<Rightarrow>
               (case classifyOperations (displayedResources display') operations ([], [], []) of
                  None \<Rightarrow> (Panicked, display', ev)
                | Some (newlyDeployedResources, newlyFailedResources, runningDeployments) \<Rightarrow>
                    if sort_panics newlyDeployedResources then (Panicked, display', ev)
                    else
                      (case logNewlyCreatedResources d w display'
                              (sort_Slice d timestamp_Before newlyDeployedResources
                                 @ newlyFailedResources)
                              runningDeployments of
                         (True, display'', ev') \<Rightarrow> (Panicked, display'', ev @ ev')
                       | (False, display'', ev') \<Rightarrow> (Returned None, display'', ev @ ev')))))"

subsection \<open>Successive calls on one tracker\<close>

text \<open>
  A host that polls: each call of \<open>ReportProgress\<close> starts from the state the previous one
  left, with whatever the world answers then. The result lists what each call wrote.
  A call that returns an error does not stop the polling; after a panic nothing is called.
\<close>

fun run_ticks ::
  "deps \<Rightarrow> (world \<times> int option) list \<Rightarrow> ProvisioningProgressDisplay \<Rightarrow> event list list" where
  "run_ticks d [] s = []"
| "run_ticks d ((w, q) # ticks) s =
     (case ReportProgress d w q s of
        (Panicked, s', ev) \<Rightarrow> [ev]
      | (Returned e, s', ev) \<Rightarrow> ev # run_ticks d ticks s')"

subsection \<open>Reading the console trace\<close>

fun event_name :: "event \<Rightarrow> string option" where
  "event_name (MessageUxItem (DisplayedResource t n st du)) = Some n"
| "event_name e = None"

fun event_log :: "event \<Rightarrow> string option" where
  "event_log (LogPrintf l) = Some l"
| "event_log e = None"

fun event_spinner :: "event \<Rightarrow> string option" where
  "event_spinner (ShowSpinner l) = Some l"
| "event_spinner e = None"

fun event_announcement :: "event \<Rightarrow> string list option" where
  "event_announcement (MessageUxItem (MultilineMessage ls)) = Some ls"
| "event_announcement e = None"

text \<open>The resource names of the \<open>DisplayedResource\<close> items written, in order.\<close>

definition emitted_names :: "event list \<Rightarrow> string list" where
  "emitted_names ev = List.map_filter event_name ev"

definition log_lines :: "event list \<Rightarrow> string list" where
  "log_lines ev = List.map_filter event_log ev"

definition spinners :: "event list \<Rightarrow> string list" where
  "spinners ev = List.map_filter event_spinner ev"

definition announcements :: "event list \<Rightarrow> string list list" where
  "announcements ev = List.map_filter event_announcement ev"

definition portal_prelude :: string where
  "portal_prelude = ''You can view detailed progress in the Azure Portal''"

subsection \<open>Vocabulary for the statements\<close>

text \<open>
  An operation that the loop of lines 100 to 115 puts into the bucket of \<open>state\<close>: it targets
  a resource whose name is not in \<open>displayedResources\<close>, and its provisioning state is \<open>state\<close>.
\<close>

definition newly :: "(string \<rightharpoonup> bool) \<Rightarrow> string \<Rightarrow> operation \<Rightarrow> bool" where
  "newly disp state opn =
     (case op_ResourceName opn of
        None \<Rightarrow> False
      | Some name \<Rightarrow> \<not> displayed disp name \<and> op_ProvisioningState opn = Some state)"

text \<open>The slice handed to \<open>logNewlyCreatedResources\<close> as \<open>resources\<close>.\<close>

definition processed :: "deps \<Rightarrow> (string \<rightharpoonup> bool) \<Rightarrow> operation list \<Rightarrow> operation list" where
  "processed d disp ops =
     sort_Slice d timestamp_Before (filter (newly disp ProvisioningStateSucceeded) ops)
       @ filter (newly disp ProvisioningStateFailed) ops"

text \<open>The display name the first loop arrives at for a resource (\<open>None\<close>: nil dereference).\<close>

definition resolvedTypeName :: "deps \<Rightarrow> world \<Rightarrow> operation \<Rightarrow> string option" where
  "resolvedTypeName d w resource =
     (case op_ResourceType resource of
        None \<Rightarrow> None
      | Some resourceTypeName \<Rightarrow>
          (case op_ID resource of
             None \<Rightarrow> None
           | Some resourceId \<Rightarrow> Some (typeDisplayName d w resourceId resourceTypeName)))"

text \<open>The log line of a resource: with the display name, or the raw type when that is empty.\<close>

definition resourceLogLine :: "deps \<Rightarrow> world \<Rightarrow> operation \<Rightarrow> string option" where
  "resourceLogLine d w resource =
     (case (resolvedTypeName d w resource, op_ResourceType resource) of
        (Some shown, Some resourceTypeName) \<Rightarrow>
          logLine d resource (if shown \<noteq> [] then shown else resourceTypeName)
      | _ \<Rightarrow> None)"

definition resource_names :: "operation list \<Rightarrow> string list" where
  "resource_names ops = List.map_filter op_ResourceName ops"

definition timestamp_key :: "operation \<Rightarrow> int" where
  "timestamp_key opn = (case op_Timestamp opn of None \<Rightarrow> 0 | Some t \<Rightarrow> t)"

text \<open>
  What the documentation of \<open>sort.Slice\<close> promises: the slice is rearranged (same elements)
  into an order in which no element is less than an earlier one. It adds: "The sort is not
  guaranteed to be stable: equal elements may be reversed from their original order."
  Only slices on which the comparison does not panic are concerned.
\<close>

definition sort_Slice_contract :: "deps \<Rightarrow> bool" where
  "sort_Slice_contract d \<longleftrightarrow>
     (\<forall>xs. \<not> sort_panics xs \<longrightarrow>
        mset (sort_Slice d timestamp_Before xs) = mset xs \<and>
        sorted_wrt (\<lambda>a b. \<not> timestamp_Before b a) (sort_Slice d timestamp_Before xs))"

text \<open>
  An operation in a provisioning state other than the three the loop has a case for, and
  on which the loop does not panic (a target resource, if present, has a name).
\<close>

definition unclassified :: "operation \<Rightarrow> bool" where
  "unclassified opn =
     (case op_Properties opn of
        None \<Rightarrow> False
      | Some props \<Rightarrow>
          (case ProvisioningState props of
             None \<Rightarrow> False
           | Some state \<Rightarrow>
               state \<noteq> ProvisioningStateSucceeded \<and> state \<noteq> ProvisioningStateRunning \<and>
               state \<noteq> ProvisioningStateFailed)
          \<and> (case TargetResource props of
                None \<Rightarrow> True
              | Some target \<Rightarrow> ResourceName target \<noteq> None))"

subsection \<open>A sort that meets the contract, and sample inputs\<close>

text \<open>
  Insertion sort: an element is put in front of the elements it ties with, so ties keep
  their original order.
\<close>

fun insert_before_ties :: "('a \<Rightarrow> 'a \<Rightarrow> bool) \<Rightarrow> 'a \<Rightarrow> 'a list \<Rightarrow> 'a list" where
  "insert_before_ties lt x [] = [x]"
| "insert_before_ties lt x (y # ys) =
     (if lt y x then y # insert_before_ties lt x ys else x # y # ys)"

fun tie_keeping_sort :: "('a \<Rightarrow> 'a \<Rightarrow> bool) \<Rightarrow> 'a list \<Rightarrow> 'a list" where
  "tie_keeping_sort lt [] = []"
| "tie_keeping_sort lt (x # xs) = insert_before_ties lt x (tie_keeping_sort lt xs)"

definition sample_static_table :: "string \<Rightarrow> string" where
  "sample_static_table resourceType =
     (if resourceType = ''Microsoft.Web/sites'' then ''App Service''
      else if resourceType = ''Microsoft.Storage/storageAccounts'' then ''Storage account''
      else [])"

definition sample_deps :: deps where
  "sample_deps =
     \<lparr>azapi_GetResourceTypeDisplayName = sample_static_table,
      convert_ParseDuration = (\<lambda>text. if text = ''PT2S'' then Inr 2000000000
                                        else Inl (Error ''invalid duration'')),
      link_colour_on = ''<'',
      link_colour_off = ''>'',
      format_local_time = (\<lambda>t. if t = 1 then ''2024-01-01 00:00:01''
                                  else if t = 2 then ''2024-01-01 00:00:02''
                                  else ''2024-01-01 00:00:03''),
      sort_Slice = tie_keeping_sort\<rparr>"

definition sample_operation :: "string \<Rightarrow> string \<Rightarrow> string \<Rightarrow> int \<Rightarrow> operation" where
  "sample_operation name resourceType state ts =
     Some \<lparr>Properties = Some
       \<lparr>TargetResource = Some \<lparr>ID = Some (''/r/'' @ name), ResourceName = Some name,
                                  ResourceType = Some resourceType\<rparr>,
        ProvisioningState = Some state,
        Timestamp = Some ts,
        Duration = Some ''PT2S''\<rparr>\<rparr>"

definition sample_world :: "string \<Rightarrow> operation list \<Rightarrow> world" where
  "sample_world demo ops =
     \<lparr>deployment_Get = None,
      deployment_DeploymentUrl = Inr ''https://portal/d1'',
      deployment_SubscriptionId = ''sub'',
      Getenv_AZD_DEMO_MODE = demo,
      rm_GetDeploymentResourceOperations = (\<lambda>queryStart. Inr ops),
      rm_GetResourceTypeDisplayName = (\<lambda>subscriptionId resourceId resourceType.
         Inl (Error ''lookup failed'')),
      console_IsSpinnerInteractive = True\<rparr>"

definition failing_query_world :: world where
  "failing_query_world =
     (sample_world [] [])\<lparr>rm_GetDeploymentResourceOperations :=
                             (\<lambda>queryStart. Inl (Error ''operations query failed''))\<rparr>"

text \<open>A world in demo mode in which the portal URL cannot be obtained.\<close>

definition failing_url_world :: world where
  "failing_url_world =
     (sample_world ''1'' [])\<lparr>deployment_DeploymentUrl := Inl (Error ''no portal URL'')\<rparr>"

text \<open>Operation lists used as concrete inputs below.\<close>

definition sample_operations :: "operation list" where
  "sample_operations =
     [sample_operation ''c'' ''Microsoft.Web/sites'' ''Succeeded'' 3,
      sample_operation ''f'' ''Microsoft.Storage/storageAccounts'' ''Failed'' 1,
      sample_operation ''a'' ''Microsoft.Web/sites'' ''Succeeded'' 1,
      sample_operation ''b'' ''Microsoft.Sql/servers'' ''Succeeded'' 2,
      sample_operation ''r'' ''Microsoft.Web/sites'' ''Running'' 2,
      sample_operation ''x'' ''Microsoft.Web/sites'' ''Canceled'' 2]"

definition later_operations :: "operation list" where
  "later_operations =
     [sample_operation ''a'' ''Microsoft.Web/sites'' ''Succeeded'' 1,
      sample_operation ''b'' ''Microsoft.Sql/servers'' ''Succeeded'' 2,
      sample_operation ''r'' ''Microsoft.Web/sites'' ''Succeeded'' 3]"

text \<open>Thirteen succeeded operations: twelve with the same timestamp, then an earlier one.\<close>

definition tied_operations :: "operation list" where
  "tied_operations =
     [sample_operation ''a'' ''Microsoft.Web/sites'' ''Succeeded'' 1,
      sample_operation ''b'' ''Microsoft.Web/sites'' ''Succeeded'' 1,
      sample_operation ''c'' ''Microsoft.Web/sites'' ''Succeeded'' 1,
      sample_operation ''d'' ''Microsoft.Web/sites'' ''Succeeded'' 1,
      sample_operation ''e'' ''Microsoft.Web/sites'' ''Succeeded'' 1,
      sample_operation ''f'' ''Microsoft.Web/sites'' ''Succeeded'' 1,
      sample_operation ''g'' ''Microsoft.Web/sites'' ''Succeeded'' 1,
      sample_operation ''h'' ''Microsoft.Web/sites'' ''Succeeded'' 1,
      sample_operation ''i'' ''Microsoft.Web/sites'' ''Succeeded'' 1,
      sample_operation ''j'' ''Microsoft.Web/sites'' ''Succeeded'' 1,
      sample_operation ''k'' ''Microsoft.Web/sites'' ''Succeeded'' 1,
      sample_operation ''l'' ''Microsoft.Web/sites'' ''Succeeded'' 1,
      sample_operation ''m'' ''Microsoft.Web/sites'' ''Succeeded'' 0]"

definition same_name_operations :: "operation list" where
  "same_name_operations =
     [sample_operation ''app'' ''Microsoft.Web/sites'' ''Succeeded'' 1,
      sample_operation ''app'' ''Microsoft.Storage/storageAccounts'' ''Succeeded'' 2]"

subsection \<open>sort.Slice as the Go standard library has it\<close>

text \<open>
  \<open>sort.Slice\<close> is library code, not code of the repository. Since Go 1.19 it is the
  pattern-defeating quicksort of sort/zsortfunc.go, followed here function by function
  on a list with the comparison \<open>lt\<close>: insertion sort up to 12 elements, otherwise
  partitioning around a chosen pivot. The library's pseudo-random draws are a parameter:
  \<open>random seed i\<close> is draw number \<open>i\<close> of the generator started with \<open>seed\<close>.
\<close>

text \<open>\<open>data.Swap(i, j)\<close> on the slice.\<close>

definition data_Swap :: "'a list \<Rightarrow> nat \<Rightarrow> nat \<Rightarrow> 'a list" where
  "data_Swap xs i j = xs[i := xs ! j, j := xs ! i]"

text \<open>
  \<open>insertionSort_func\<close>: for \<open>i\<close> from \<open>a + 1\<close> below \<open>b\<close>, the element at \<open>i\<close> moves down while
  it is less than the one before it (\<open>j > a && data.Less(j, j-1)\<close>).
\<close>

function insertion_shift :: "('a \<Rightarrow> 'a \<Rightarrow> bool) \<Rightarrow> 'a list \<Rightarrow> nat \<Rightarrow> nat \<Rightarrow> 'a list" where
  "insertion_shift lt xs a j =
     (if a < j \<and> lt (xs ! j) (xs ! (j - 1))
      then insertion_shift lt (data_Swap xs j (j - 1)) a (j - 1)
      else xs)"
  by pat_completeness auto
termination
  by (relation "measure (\<lambda>(lt, xs, a, j). j)") auto

declare insertion_shift.simps [simp del]

function insertion_loop ::
  "('a \<Rightarrow> 'a \<Rightarrow> bool) \<Rightarrow> 'a list \<Rightarrow> nat \<Rightarrow> nat \<Rightarrow> nat \<Rightarrow> 'a list" where
  "insertion_loop lt xs a b i =
     (if i < b then insertion_loop lt (insertion_shift lt xs a i) a b (i + 1) else xs)"
  by pat_completeness auto
termination
  by (relation "measure (\<lambda>(lt, xs, a, b, i). b - i)") auto

declare insertion_loop.simps [simp del]

definition insertionSort_func :: "('a \<Rightarrow> 'a \<Rightarrow> bool) \<Rightarrow> 'a list \<Rightarrow> nat \<Rightarrow> nat \<Rightarrow> 'a list" where
  "insertionSort_func lt xs a b = insertion_loop lt xs a b (a + 1)"

text \<open>\<open>siftDown_func\<close> and \<open>heapSort_func\<close>, the fallback when \<open>limit\<close> reaches zero.\<close>

function siftDown_func ::
  "('a \<Rightarrow> 'a \<Rightarrow> bool) \<Rightarrow> 'a list \<Rightarrow> nat \<Rightarrow> nat \<Rightarrow> nat \<Rightarrow> 'a list" where
  "siftDown_func lt xs root hi first =
     (if hi \<le> 2 * root + 1 then xs
      else
        (let child = (if 2 * root + 2 < hi \<and>
                          lt (xs ! (first + (2 * root + 1))) (xs ! (first + (2 * root + 1) + 1))
                      then 2 * root + 2 else 2 * root + 1)
         in if \<not> lt (xs ! (first + root)) (xs ! (first + child)) then xs
            else siftDown_func lt (data_Swap xs (first + root) (first + child)) child hi first))"
  by pat_completeness auto
termination
  by (relation "measure (\<lambda>(lt, xs, root, hi, first). hi - root)") (auto split: if_splits)

declare siftDown_func.simps [simp del]

fun heap_build :: "('a \<Rightarrow> 'a \<Rightarrow> bool) \<Rightarrow> 'a list \<Rightarrow> nat \<Rightarrow> nat \<Rightarrow> nat \<Rightarrow> 'a list" where
  "heap_build lt xs first hi 0 = siftDown_func lt xs 0 hi first"
| "heap_build lt xs first hi (Suc i) =
     heap_build lt (siftDown_func lt xs (Suc i) hi first) first hi i"

fun heap_pop :: "('a \<Rightarrow> 'a \<Rightarrow> bool) \<Rightarrow> 'a list \<Rightarrow> nat \<Rightarrow> nat \<Rightarrow> 'a list" where
  "heap_pop lt xs first 0 = xs"
| "heap_pop lt xs first (Suc i) =
     heap_pop lt (siftDown_func lt (data_Swap xs first (first + i)) 0 i first) first i"

definition heapSort_func :: "('a \<Rightarrow> 'a \<Rightarrow> bool) \<Rightarrow> 'a list \<Rightarrow> nat \<Rightarrow> nat \<Rightarrow> 'a list" where
  "heapSort_func lt xs a b =
     heap_pop lt (heap_build lt xs a (b - a) ((b - a - 1) div 2)) a (b - a)"

text \<open>
  \<open>bits.Len\<close>, \<open>nextPowerOfTwo\<close> and \<open>breakPatterns_func\<close>. The three draws of the xorshift
  generator seeded with the length are \<open>random len 0\<close>, \<open>random len 1\<close> and \<open>random len 2\<close>;
  \<open>& (modulus - 1)\<close> with a power of two is \<open>mod\<close>.
\<close>

fun bits_Len :: "nat \<Rightarrow> nat" where
  "bits_Len n = (if n = 0 then 0 else Suc (bits_Len (n div 2)))"

declare bits_Len.simps [simp del]

definition nextPowerOfTwo :: "nat \<Rightarrow> nat" where
  "nextPowerOfTwo len = 2 ^ bits_Len len"

fun breakPatterns_swaps ::
  "(nat \<Rightarrow> nat \<Rightarrow> nat) \<Rightarrow> 'a list \<Rightarrow> nat \<Rightarrow> nat \<Rightarrow> nat \<Rightarrow> nat list \<Rightarrow> 'a list" where
  "breakPatterns_swaps random xs a len idx [] = xs"
| "breakPatterns_swaps random xs a len idx (i # rest) =
     (let other = random len i mod nextPowerOfTwo len;
          other' = (if len \<le> other then other - len else other)
      in breakPatterns_swaps random (data_Swap xs (idx - 1 + i) (a + other')) a len idx rest)"

definition breakPatterns_func ::
  "(nat \<Rightarrow> nat \<Rightarrow> nat) \<Rightarrow> 'a list \<Rightarrow> nat \<Rightarrow> nat \<Rightarrow> 'a list" where
  "breakPatterns_func random xs a b =
     (let len = b - a in
      if 8 \<le> len
      then breakPatterns_swaps random xs a len (a + (len div 4) * 2 - 1) [0, 1, 2]
      else xs)"

text \<open>
  \<open>choosePivot_func\<close>: the median of the elements at \<open>a + l/4*1\<close>, \<open>a + l/4*2\<close>, \<open>a + l/4*3\<close>
  (of their adjacent medians from 50 elements on), with the number of swaps as a hint.
\<close>

datatype sortedHint = unknownHint | increasingHint | decreasingHint

definition order2_func ::
  "('a \<Rightarrow> 'a \<Rightarrow> bool) \<Rightarrow> 'a list \<Rightarrow> nat \<Rightarrow> nat \<Rightarrow> nat \<Rightarrow> nat \<times> nat \<times> nat" where
  "order2_func lt xs a b swaps =
     (if lt (xs ! b) (xs ! a) then (b, a, swaps + 1) else (a, b, swaps))"

definition median_func ::
  "('a \<Rightarrow> 'a \<Rightarrow> bool) \<Rightarrow> 'a list \<Rightarrow> nat \<Rightarrow> nat \<Rightarrow> nat \<Rightarrow> nat \<Rightarrow> nat \<times> nat" where
  "median_func lt xs a b c swaps =
     (case order2_func lt xs a b swaps of
        (a1, b1, s1) \<Rightarrow>
          (case order2_func lt xs b1 c s1 of
             (b2, c2, s2) \<Rightarrow>
               (case order2_func lt xs a1 b2 s2 of
                  (a3, b3, s3) \<Rightarrow> (b3, s3))))"

definition medianAdjacent_func ::
  "('a \<Rightarrow> 'a \<Rightarrow> bool) \<Rightarrow> 'a list \<Rightarrow> nat \<Rightarrow> nat \<Rightarrow> nat \<times> nat" where
  "medianAdjacent_func lt xs a swaps = median_func lt xs (a - 1) a (a + 1) swaps"

definition choosePivot_func ::
  "('a \<Rightarrow> 'a \<Rightarrow> bool) \<Rightarrow> 'a list \<Rightarrow> nat \<Rightarrow> nat \<Rightarrow> nat \<times> sortedHint" where
  "choosePivot_func lt xs a b =
     (let l = b - a;
          i = a + l div 4 * 1;
          j = a + l div 4 * 2;
          k = a + l div 4 * 3;
          (j', swaps) =
            (if 8 \<le> l then
               (if 50 \<le> l then
                  (case medianAdjacent_func lt xs i 0 of
                     (i1, s1) \<Rightarrow>
                       (case medianAdjacent_func lt xs j s1 of
                          (j1, s2) \<Rightarrow>
                            (case medianAdjacent_func lt xs k s2 of
                               (k1, s3) \<Rightarrow> median_func lt xs i1 j1 k1 s3)))
                else median_func lt xs i j k 0)
             else (j, 0))
      in if swaps = 0 then (j', increasingHint)
         else if swaps = 12 then (j', decreasingHint)
         else (j', unknownHint))"

text \<open>\<open>reverseRange_func\<close>.\<close>

function reverse_loop :: "'a list \<Rightarrow> nat \<Rightarrow> nat \<Rightarrow> 'a list" where
  "reverse_loop xs i j = (if i < j then reverse_loop (data_Swap xs i j) (i + 1) (j - 1) else xs)"
  by pat_completeness auto
termination
  by (relation "measure (\<lambda>(xs, i, j). j - i)") auto

declare reverse_loop.simps [simp del]

definition reverseRange_func :: "'a list \<Rightarrow> nat \<Rightarrow> nat \<Rightarrow> 'a list" where
  "reverseRange_func xs a b = reverse_loop xs a (b - 1)"

text \<open>
  \<open>partialInsertionSort_func\<close>: at most five steps; below 50 elements it only tells
  whether the range is sorted already.
\<close>

function scan_sorted :: "('a \<Rightarrow> 'a \<Rightarrow> bool) \<Rightarrow> 'a list \<Rightarrow> nat \<Rightarrow> nat \<Rightarrow> nat" where
  "scan_sorted lt xs i b =
     (if i < b \<and> \<not> lt (xs ! i) (xs ! (i - 1)) then scan_sorted lt xs (i + 1) b else i)"
  by pat_completeness auto
termination
  by (relation "measure (\<lambda>(lt, xs, i, b). b - i)") auto

declare scan_sorted.simps [simp del]

fun shift_left :: "('a \<Rightarrow> 'a \<Rightarrow> bool) \<Rightarrow> 'a list \<Rightarrow> nat \<Rightarrow> 'a list" where
  "shift_left lt xs 0 = xs"
| "shift_left lt xs (Suc j) =
     (if \<not> lt (xs ! Suc j) (xs ! j) then xs else shift_left lt (data_Swap xs (Suc j) j) j)"

function shift_right :: "('a \<Rightarrow> 'a \<Rightarrow> bool) \<Rightarrow> 'a list \<Rightarrow> nat \<Rightarrow> nat \<Rightarrow> 'a list" where
  "shift_right lt xs j b =
     (if j < b then
        (if \<not> lt (xs ! j) (xs ! (j - 1)) then xs
         else shift_right lt (data_Swap xs j (j - 1)) (j + 1) b)
      else xs)"
  by pat_completeness auto
termination
  by (relation "measure (\<lambda>(lt, xs, j, b). b - j)") auto

declare shift_right.simps [simp del]

function partialInsertionSort_steps ::
  "('a \<Rightarrow> 'a \<Rightarrow> bool) \<Rightarrow> 'a list \<Rightarrow> nat \<Rightarrow> nat \<Rightarrow> nat \<Rightarrow> nat \<Rightarrow> bool \<times> 'a list" where
  "partialInsertionSort_steps lt xs a b i steps =
     (if steps = 0 then (False, xs)
      else
        (let i' = scan_sorted lt xs i b in
         if i' = b then (True, xs)
         else if b - a < 50 then (False, xs)
         else
           (let xs1 = data_Swap xs i' (i' - 1);
                xs2 = (if 2 \<le> i' - a then shift_left lt xs1 (i' - 1) else xs1);
                xs3 = (if 2 \<le> b - i' then shift_right lt xs2 (i' + 1) b else xs2)
            in partialInsertionSort_steps lt xs3 a b i' (steps - 1))))"
  by pat_completeness auto
termination
  by (relation "measure (\<lambda>(lt, xs, a, b, i, steps). steps)") auto

declare partialInsertionSort_steps.simps [simp del]

definition partialInsertionSort_func ::
  "('a \<Rightarrow> 'a \<Rightarrow> bool) \<Rightarrow> 'a list \<Rightarrow> nat \<Rightarrow> nat \<Rightarrow> bool \<times> 'a list" where
  "partialInsertionSort_func lt xs a b = partialInsertionSort_steps lt xs a b (a + 1) 5"

text \<open>
  \<open>partition_func\<close>. The loops run while \<open>i <= j\<close>; the upper index is kept as \<open>ju = j + 1\<close>,
  so that it stays a natural number, and \<open>i <= j\<close> reads \<open>i < ju\<close>. Elements that are not
  less than the pivot stay on the right.
\<close>

function scan_up :: "('a \<Rightarrow> 'a \<Rightarrow> bool) \<Rightarrow> 'a list \<Rightarrow> nat \<Rightarrow> nat \<Rightarrow> nat \<Rightarrow> nat" where
  "scan_up lt xs a i ju =
     (if i < ju \<and> lt (xs ! i) (xs ! a) then scan_up lt xs a (i + 1) ju else i)"
  by pat_completeness auto
termination
  by (relation "measure (\<lambda>(lt, xs, a, i, ju). ju - i)") auto

declare scan_up.simps [simp del]

function scan_down :: "('a \<Rightarrow> 'a \<Rightarrow> bool) \<Rightarrow> 'a list \<Rightarrow> nat \<Rightarrow> nat \<Rightarrow> nat \<Rightarrow> nat" where
  "scan_down lt xs a i ju =
     (if i < ju \<and> \<not> lt (xs ! (ju - 1)) (xs ! a) then scan_down lt xs a i (ju - 1) else ju)"
  by pat_completeness auto
termination
  by (relation "measure (\<lambda>(lt, xs, a, i, ju). ju)") auto

declare scan_down.simps [simp del]

function partition_loop ::
  "('a \<Rightarrow> 'a \<Rightarrow> bool) \<Rightarrow> 'a list \<Rightarrow> nat \<Rightarrow> nat \<Rightarrow> nat \<Rightarrow> 'a list \<times> nat" where
  "partition_loop lt xs a i ju =
     (let i' = scan_up lt xs a i ju;
          ju' = scan_down lt xs a i' ju
      in if \<not> i' < ju' then (xs, ju')
         else partition_loop lt (data_Swap xs i' (ju' - 1)) a (i' + 1) (ju' - 1))"
  by pat_completeness auto

definition partition_func ::
  "('a \<Rightarrow> 'a \<Rightarrow> bool) \<Rightarrow> 'a list \<Rightarrow> nat \<Rightarrow> nat \<Rightarrow> nat \<Rightarrow> 'a list \<times> nat \<times> bool" where
  "partition_func lt xs0 a b pivot =
     (let xs = data_Swap xs0 a pivot;
          i = scan_up lt xs a (a + 1) b;
          ju = scan_down lt xs a i b
      in if \<not> i < ju then (data_Swap xs (ju - 1) a, ju - 1, True)
         else
           (case partition_loop lt (data_Swap xs i (ju - 1)) a (i + 1) (ju - 1) of
              (xs', ju') \<Rightarrow> (data_Swap xs' (ju' - 1) a, ju' - 1, False)))"

text \<open>\<open>partitionEqual_func\<close>, with the same encoding of the upper index.\<close>

function scan_up_equal :: "('a \<Rightarrow> 'a \<Rightarrow> bool) \<Rightarrow> 'a list \<Rightarrow> nat \<Rightarrow> nat \<Rightarrow> nat \<Rightarrow> nat" where
  "scan_up_equal lt xs a i ju =
     (if i < ju \<and> \<not> lt (xs ! a) (xs ! i) then scan_up_equal lt xs a (i + 1) ju else i)"
  by pat_completeness auto
termination
  by (relation "measure (\<lambda>(lt, xs, a, i, ju). ju - i)") auto

declare scan_up_equal.simps [simp del]

function scan_down_equal :: "('a \<Rightarrow> 'a \<Rightarrow> bool) \<Rightarrow> 'a list \<Rightarrow> nat \<Rightarrow> nat \<Rightarrow> nat \<Rightarrow> nat" where
  "scan_down_equal lt xs a i ju =
     (if i < ju \<and> lt (xs ! a) (xs ! (ju - 1)) then scan_down_equal lt xs a i (ju - 1) else ju)"
  by pat_completeness auto
termination
  by (relation "measure (\<lambda>(lt, xs, a, i, ju). ju)") auto

declare scan_down_equal.simps [simp del]

function partitionEqual_loop ::
  "('a \<Rightarrow> 'a \<Rightarrow> bool) \<Rightarrow> 'a list \<Rightarrow> nat \<Rightarrow> nat \<Rightarrow> nat \<Rightarrow> 'a list \<times> nat" where
  "partitionEqual_loop lt xs a i ju =
     (let i' = scan_up_equal lt xs a i ju;
          ju' = scan_down_equal lt xs a i' ju
      in if \<not> i' < ju' then (xs, i')
         else partitionEqual_loop lt (data_Swap xs i' (ju' - 1)) a (i' + 1) (ju' - 1))"
  by pat_completeness auto

definition partitionEqual_func ::
  "('a \<Rightarrow> 'a \<Rightarrow> bool) \<Rightarrow> 'a list \<Rightarrow> nat \<Rightarrow> nat \<Rightarrow> nat \<Rightarrow> 'a list \<times> nat" where
  "partitionEqual_func lt xs0 a b pivot =
     partitionEqual_loop lt (data_Swap xs0 a pivot) a (a + 1) b"

text \<open>
  \<open>pdqsort_func\<close>. One round of its loop either finishes, or has partitioned the range
  into elements equal to the pivot and greater ones (the loop goes on at \<open>mid\<close>), or has
  partitioned it around the pivot (the shorter side is sorted by a recursive call, the
  loop goes on with the longer one).
\<close>

datatype 'a iteration =
  Sorted "'a list"
  | Equal_Partitioned "'a list" nat nat
  | Partitioned "'a list" nat bool nat

definition pdqsort_iteration ::
  "(nat \<Rightarrow> nat \<Rightarrow> nat) \<Rightarrow> ('a \<Rightarrow> 'a \<Rightarrow> bool) \<Rightarrow> 'a list \<Rightarrow> nat \<Rightarrow> nat \<Rightarrow> nat \<Rightarrow> bool \<Rightarrow> bool \<Rightarrow>
     'a iteration" where
  "pdqsort_iteration random lt xs a b limit wasBalanced wasPartitioned =
     (if b - a \<le> 12 then Sorted (insertionSort_func lt xs a b)
      else if limit = 0 then Sorted (heapSort_func lt xs a b)
      else
        (let xs1 = (if \<not> wasBalanced then breakPatterns_func random xs a b else xs);
             limit1 = (if \<not> wasBalanced then limit - 1 else limit)
         in case choosePivot_func lt xs1 a b of
              (pivot0, hint0) \<Rightarrow>
                (let xs2 = (if hint0 = decreasingHint then reverseRange_func xs1 a b else xs1);
                     pivot = (if hint0 = decreasingHint then (b - 1) - (pivot0 - a) else pivot0);
                     hint = (if hint0 = decreasingHint then increasingHint else hint0);
                     (done, xs3) =
                       (if wasBalanced \<and> wasPartitioned \<and> hint = increasingHint
                        then partialInsertionSort_func lt xs2 a b else (False, xs2))
                 in if done then Sorted xs3
                    else if 0 < a \<and> \<not> lt (xs3 ! (a - 1)) (xs3 ! pivot) then
                      (case partitionEqual_func lt xs3 a b pivot of
                         (xs4, mid) \<Rightarrow> Equal_Partitioned xs4 mid limit1)
                    else
                      (case partition_func lt xs3 a b pivot of
                         (xs4, mid, alreadyPartitioned) \<Rightarrow>
                           Partitioned xs4 mid alreadyPartitioned limit1))))"

function pdqsort_func ::
  "(nat \<Rightarrow> nat \<Rightarrow> nat) \<Rightarrow> ('a \<Rightarrow> 'a \<Rightarrow> bool) \<Rightarrow> 'a list \<Rightarrow> nat \<Rightarrow> nat \<Rightarrow> nat \<Rightarrow> bool \<Rightarrow> bool \<Rightarrow>
     'a list" where
  "pdqsort_func random lt xs a b limit wasBalanced wasPartitioned =
     (case pdqsort_iteration random lt xs a b limit wasBalanced wasPartitioned of
        Sorted ys \<Rightarrow> ys
      | Equal_Partitioned ys mid limit' \<Rightarrow>
          pdqsort_func random lt ys mid b limit' wasBalanced wasPartitioned
      | Partitioned ys mid alreadyPartitioned limit' \<Rightarrow>
          (if mid - a < b - mid then
             pdqsort_func random lt (pdqsort_func random lt ys a mid limit' True True)
               (mid + 1) b limit' ((b - a) div 8 \<le> mid - a) alreadyPartitioned
           else
             pdqsort_func random lt (pdqsort_func random lt ys (mid + 1) b limit' True True)
               a mid limit' ((b - a) div 8 \<le> b - mid) alreadyPartitioned))"
  by pat_completeness auto

text \<open>\<open>sort.Slice\<close>: \<open>pdqsort_func\<close> on the whole slice with \<open>limit = bits.Len(length)\<close>.\<close>

definition go_sort_Slice ::
  "(nat \<Rightarrow> nat \<Rightarrow> nat) \<Rightarrow> ('a \<Rightarrow> 'a \<Rightarrow> bool) \<Rightarrow> 'a list \<Rightarrow> 'a list" where
  "go_sort_Slice random lt xs =
     pdqsort_func random lt xs 0 (length xs) (bits_Len (length xs)) True True"

text \<open>The collaborators with this sort, and a table of draws.\<close>

definition go_deps :: "(nat \<Rightarrow> nat \<Rightarrow> nat) \<Rightarrow> deps" where
  "go_deps random = sample_deps\<lparr>sort_Slice := go_sort_Slice random\<rparr>"

definition zero_draws :: "nat \<Rightarrow> nat \<Rightarrow> nat" where
  "zero_draws seed i = 0"

section \<open>The parameter prompter\<close>

text \<open>
  The sources hold the tests of \<open>promptForParameter\<close> (prompt\_test.go) but not the function.
  This section models it from sections 3.1, 4.1 and 4.2 of the specification; every
  definition of it says so.
\<close>

subsection \<open>Values, definitions, console\<close>

text \<open>Modelled from the spec: the tagged variant of parameter values (design notes);
  the type \<open>any\<close> of the missing prompter.\<close>

datatype param_value =
  V_String string
  | V_Int int
  | V_Bool bool
  | V_Array "param_value list"
  | V_Object "(string \<times> param_value) list"

text \<open>Modelled from the spec: the seven parameter types of section 3.1.\<close>

datatype param_type =
  T_string | T_secureString | T_int | T_bool | T_array | T_object | T_secureObject

text \<open>Modelled from the spec: \<open>ParameterDefinition\<close> of section 3.1
  (\<open>azure.ArmTemplateParameterDefinition\<close> is not among the sources). The two recognised
  options of \<open>metadata.azd\<close> are fields of their own.\<close>

record ParameterDefinition =
  Type :: param_type
  AllowedValues :: "param_value list option"
  MinValue :: "int option"
  MaxValue :: "int option"
  MinLength :: "int option"
  MaxLength :: "int option"
  Metadata_azd_default :: "param_value option"
  Metadata_azd_type :: "string option"

text \<open>Modelled from the spec: the input console of section 4.1 (not among the sources),
  as the list of the operator's replies still to come, and what is written to it.
  A reply of the wrong kind, and the end of the list, count as a cancellation.\<close>

datatype console_reply = Reply_Text string | Reply_Index nat | Reply_Cancel

text \<open>Modelled from the spec: what the prompter does on the console of section 4.1:
  a prompt (with the default it shows), a select (choices and default index), a message.\<close>

datatype console_event =
  Prompt string "param_value option"
  | Select string "param_value list" "nat option"
  | Message string

text \<open>Modelled from the spec: the two failures of section 7 that the prompter surfaces.\<close>

datatype prompt_error = ConfigurationError | Cancellation

text \<open>Modelled from the spec: what the missing prompter takes from outside, the JSON
  parser and the regions of the subscription.\<close>

record prompt_env =
  parse_json :: "string \<Rightarrow> param_value option"
  subscription_locations :: "string list"

subsection \<open>Text and numbers\<close>

text \<open>Modelled from the spec: the bound in single quotes, as in \<open>at least '1'\<close>
  (section 4.2.3).\<close>

definition quoted :: "string \<Rightarrow> string" where
  "quoted s = [CHR 0x27] @ s @ [CHR 0x27]"

text \<open>Modelled from the spec: decimal rendering of the literal bound (section 4.2.3).\<close>

definition digit_char :: "nat \<Rightarrow> char" where
  "digit_char n = char_of (48 + n)"

text \<open>Modelled from the spec: the decimal digits of a bound.\<close>

fun show_nat :: "nat \<Rightarrow> string" where
  "show_nat n = (if n < 10 then [digit_char n] else show_nat (n div 10) @ [digit_char (n mod 10)])"

declare show_nat.simps [simp del]

text \<open>Modelled from the spec: a bound as text, with its sign.\<close>

definition show_int :: "int \<Rightarrow> string" where
  "show_int i = (if i < 0 then CHR ''-'' # show_nat (nat (- i)) else show_nat (nat i))"

text \<open>Modelled from the spec: "parse as signed integer" (section 4.2.3): an optional
  sign and at least one decimal digit.\<close>

definition is_digit :: "char \<Rightarrow> bool" where
  "is_digit c = (48 \<le> (of_char c :: nat) \<and> (of_char c :: nat) \<le> 57)"

text \<open>Modelled from the spec: the value of a run of decimal digits (section 4.2.3, int).\<close>

fun digits_value :: "nat \<Rightarrow> string \<Rightarrow> nat option" where
  "digits_value acc [] = Some acc"
| "digits_value acc (c # cs) =
     (if is_digit c then digits_value (10 * acc + (of_char c - 48)) cs else None)"

text \<open>Modelled from the spec: the coercion of the int row of the table in section 4.2.3.\<close>

fun parse_int :: "string \<Rightarrow> int option" where
  "parse_int [] = None"
| "parse_int (c # cs) =
     (if c = CHR ''-'' then (if cs = [] then None else map_option (\<lambda>n. - int n) (digits_value 0 cs))
      else if c = CHR ''+'' then (if cs = [] then None else map_option int (digits_value 0 cs))
      else map_option int (digits_value 0 (c # cs)))"

text \<open>Modelled from the spec: case-insensitive comparison with "true" and "false"
  (section 4.2.1).\<close>

definition lowercase :: "string \<Rightarrow> string" where
  "lowercase s =
     map (\<lambda>c. if 65 \<le> (of_char c :: nat) \<and> (of_char c :: nat) \<le> 90
              then char_of ((of_char c :: nat) + 32) else c) s"

subsection \<open>Default value resolution (section 4.2.1)\<close>

text \<open>Modelled from the spec: the natural type of \<open>metadata.azd.default\<close> must match the
  parameter type. For bool a boolean or the strings "true" and "false" in any case; for
  int only a number; for string only a string. \<open>None\<close> is the fatal mismatch.\<close>

fun natural_default :: "param_type \<Rightarrow> param_value \<Rightarrow> param_value option" where
  "natural_default T_bool (V_Bool b) = Some (V_Bool b)"
| "natural_default T_bool (V_String s) =
     (if lowercase s = ''true'' then Some (V_Bool True)
      else if lowercase s = ''false'' then Some (V_Bool False)
      else None)"
| "natural_default T_int (V_Int n) = Some (V_Int n)"
| "natural_default T_string (V_String s) = Some (V_String s)"
| "natural_default T_secureString (V_String s) = Some (V_String s)"
| "natural_default T_array (V_Array xs) = Some (V_Array xs)"
| "natural_default T_object (V_Object kvs) = Some (V_Object kvs)"
| "natural_default T_secureObject (V_Object kvs) = Some (V_Object kvs)"
| "natural_default t v = None"

text \<open>Modelled from the spec: membership in \<open>allowedValues\<close>, "if set".\<close>

definition allowed :: "ParameterDefinition \<Rightarrow> param_value \<Rightarrow> bool" where
  "allowed def v =
     (case AllowedValues def of
        None \<Rightarrow> True
      | Some [] \<Rightarrow> True
      | Some (a # as) \<Rightarrow> v \<in> set (a # as))"

text \<open>Modelled from the spec: the effective default; a default of the wrong natural type,
  or one that is not among non-empty \<open>allowedValues\<close>, is a configuration error.\<close>

definition resolve_default :: "ParameterDefinition \<Rightarrow> prompt_error + param_value option" where
  "resolve_default def =
     (case Metadata_azd_default def of
        None \<Rightarrow> Inr None
      | Some v \<Rightarrow>
          (case natural_default (Type def) v of
             None \<Rightarrow> Inl ConfigurationError
           | Some dv \<Rightarrow> if allowed def dv then Inr (Some dv) else Inl ConfigurationError))"

subsection \<open>Validation and the retry loop (section 4.2.3)\<close>

text \<open>Modelled from the spec: the message for a violated lower bound.\<close>

definition at_least :: "int \<Rightarrow> string" where
  "at_least n = ''at least '' @ quoted (show_int n)"

text \<open>Modelled from the spec: the message for a violated upper bound.\<close>

definition at_most :: "int \<Rightarrow> string" where
  "at_most n = ''at most '' @ quoted (show_int n)"

text \<open>Modelled from the spec: "within [min, max] if set"; the result is the message of
  the violated bound.\<close>

definition check_range :: "int option \<Rightarrow> int option \<Rightarrow> int \<Rightarrow> string option" where
  "check_range lo hi n =
     (case lo of
        Some l \<Rightarrow> if n < l then Some (at_least l)
                  else (case hi of Some h \<Rightarrow> if h < n then Some (at_most h) else None
                        | None \<Rightarrow> None)
      | None \<Rightarrow> (case hi of Some h \<Rightarrow> if h < n then Some (at_most h) else None
                  | None \<Rightarrow> None))"

text \<open>Modelled from the spec: "membership in allowedValues if set" of the table.\<close>

definition check_allowed :: "ParameterDefinition \<Rightarrow> param_value \<Rightarrow> string + param_value" where
  "check_allowed def v =
     (if allowed def v then Inr v else Inl ''not one of the allowed values'')"

text \<open>Modelled from the spec: the table of section 4.2.3, coercion and validation of one
  line of input by parameter type. A bool parameter is always chosen from a list
  (section 4.2.2) and never reaches this function.\<close>

definition validate ::
  "prompt_env \<Rightarrow> ParameterDefinition \<Rightarrow> string \<Rightarrow> string + param_value" where
  "validate env def input =
     (case Type def of
        T_string \<Rightarrow>
          (case check_range (MinLength def) (MaxLength def) (int (length input)) of
             Some msg \<Rightarrow> Inl msg
           | None \<Rightarrow> check_allowed def (V_String input))
      | T_secureString \<Rightarrow>
          (case check_range (MinLength def) (MaxLength def) (int (length input)) of
             Some msg \<Rightarrow> Inl msg
           | None \<Rightarrow> check_allowed def (V_String input))
      | T_int \<Rightarrow>
          (case parse_int input of
             None \<Rightarrow> Inl (''failed to convert '' @ quoted input @ '' to an integer'')
           | Some n \<Rightarrow>
               (case check_range (MinValue def) (MaxValue def) n of
                  Some msg \<Rightarrow> Inl msg
                | None \<Rightarrow> check_allowed def (V_Int n)))
      | T_bool \<Rightarrow> Inl ''a bool parameter is chosen from a list''
      | T_array \<Rightarrow>
          (case parse_json env input of
             Some (V_Array xs) \<Rightarrow> check_allowed def (V_Array xs)
           | _ \<Rightarrow> Inl ''failed to parse value as a JSON array'')
      | T_object \<Rightarrow>
          (case parse_json env input of
             Some (V_Object kvs) \<Rightarrow> check_allowed def (V_Object kvs)
           | _ \<Rightarrow> Inl ''failed to parse value as a JSON object'')
      | T_secureObject \<Rightarrow>
          (case parse_json env input of
             Some (V_Object kvs) \<Rightarrow> check_allowed def (V_Object kvs)
           | _ \<Rightarrow> Inl ''failed to parse value as a JSON object''))"

text \<open>Modelled from the spec: prompt, validate, and on failure write the message and
  prompt again, with no cap on the number of rounds. The recursion is on the replies
  still to come.\<close>

fun prompt_loop ::
  "prompt_env \<Rightarrow> string \<Rightarrow> ParameterDefinition \<Rightarrow> param_value option \<Rightarrow>
     console_reply list \<Rightarrow>
     (prompt_error + param_value) \<times> console_reply list \<times> console_event list" where
  "prompt_loop env name def dflt [] = (Inl Cancellation, [], [Prompt name dflt])"
| "prompt_loop env name def dflt (Reply_Text input # rest) =
     (case validate env def input of
        Inr v \<Rightarrow> (Inr v, rest, [Prompt name dflt])
      | Inl msg \<Rightarrow>
          (case prompt_loop env name def dflt rest of
             (result, rest', ev) \<Rightarrow> (result, rest', Prompt name dflt # Message msg # ev)))"
| "prompt_loop env name def dflt (reply # rest) = (Inl Cancellation, rest, [Prompt name dflt])"

subsection \<open>Prompt style selection (section 4.2.2) and the prompter\<close>

text \<open>Modelled from the spec: the \<open>defaultIndex\<close> option of \<open>Select\<close>, the position of the
  effective default among the choices.\<close>

fun index_of :: "'a \<Rightarrow> 'a list \<Rightarrow> nat option" where
  "index_of x [] = None"
| "index_of x (y # ys) = (if x = y then Some 0 else map_option Suc (index_of x ys))"

text \<open>Modelled from the spec: \<open>Select\<close> of section 4.1, which returns the chosen index.\<close>

definition select_from ::
  "string \<Rightarrow> param_value list \<Rightarrow> nat option \<Rightarrow> console_reply list \<Rightarrow>
     (prompt_error + nat) \<times> console_reply list \<times> console_event list" where
  "select_from name choices defaultIndex replies =
     (case replies of
        [] \<Rightarrow> (Inl Cancellation, [], [Select name choices defaultIndex])
      | Reply_Index i # rest \<Rightarrow>
          (if i < length choices then (Inr i, rest, [Select name choices defaultIndex])
           else (Inl Cancellation, rest, [Select name choices defaultIndex]))
      | reply # rest \<Rightarrow> (Inl Cancellation, rest, [Select name choices defaultIndex]))"

text \<open>Modelled from the spec: a select that offers a sequence of values and returns the
  chosen one.\<close>

definition select_value ::
  "string \<Rightarrow> param_value list \<Rightarrow> param_value option \<Rightarrow> console_reply list \<Rightarrow>
     (prompt_error + param_value) \<times> console_reply list \<times> console_event list" where
  "select_value name choices dflt replies =
     (case select_from name choices (Option.bind dflt (\<lambda>v. index_of v choices)) replies of
        (Inl err, rest, ev) \<Rightarrow> (Inl err, rest, ev)
      | (Inr i, rest, ev) \<Rightarrow> (Inr (choices ! i), rest, ev))"

text \<open>Modelled from the spec: the select for a bool, choices "False" and "True"; the
  returned boolean is (index = 1).\<close>

definition select_bool ::
  "string \<Rightarrow> param_value option \<Rightarrow> console_reply list \<Rightarrow>
     (prompt_error + param_value) \<times> console_reply list \<times> console_event list" where
  "select_bool name dflt replies =
     (case select_from name [V_String ''False'', V_String ''True'']
             (case dflt of Some (V_Bool b) \<Rightarrow> Some (if b then 1 else 0) | _ \<Rightarrow> None) replies of
        (Inl err, rest, ev) \<Rightarrow> (Inl err, rest, ev)
      | (Inr i, rest, ev) \<Rightarrow> (Inr (V_Bool (i = 1)), rest, ev))"

text \<open>Modelled from the spec: \<open>PromptForParameter(name, definition, currentValue?)\<close> of
  section 4.2, whose code is not among the sources. Empty \<open>allowedValues\<close> and a bad
  default fail before any interaction; then the style is chosen: the region picker
  (filtered by \<open>allowedValues\<close>), a select among \<open>allowedValues\<close>, the bool select, or the
  free-text loop. The spec gives \<open>currentValue\<close> no effect. The result is the value or
  error, the replies not consumed, and what was written to the console.\<close>

definition PromptForParameter ::
  "prompt_env \<Rightarrow> string \<Rightarrow> ParameterDefinition \<Rightarrow> param_value option \<Rightarrow>
     console_reply list \<Rightarrow>
     (prompt_error + param_value) \<times> console_reply list \<times> console_event list" where
  "PromptForParameter env name def currentValue replies =
     (if AllowedValues def = Some [] then (Inl ConfigurationError, replies, [])
      else
        (case resolve_default def of
           Inl err \<Rightarrow> (Inl err, replies, [])
         | Inr dflt \<Rightarrow>
             if Metadata_azd_type def = Some ''location'' then
               select_value name
                 (filter (allowed def) (map V_String (subscription_locations env))) dflt replies
             else
               (case AllowedValues def of
                  Some choices \<Rightarrow> select_value name choices dflt replies
                | None \<Rightarrow>
                    if Type def = T_bool then select_bool name dflt replies
                    else prompt_loop env name def dflt replies)))"

text \<open>Modelled from the spec: a parameter definition with a type and no other field set.\<close>

definition plain_definition :: "param_type \<Rightarrow> ParameterDefinition" where
  "plain_definition t =
     \<lparr>Type = t, AllowedValues = None, MinValue = None, MaxValue = None,
      MinLength = None, MaxLength = None,
      Metadata_azd_default = None, Metadata_azd_type = None\<rparr>"

text \<open>Modelled from the spec: an environment as concrete input, with the regions of the
  sixth end-to-end scenario.\<close>

definition sample_env :: prompt_env where
  "sample_env = \<lparr>parse_json = (\<lambda>text. if text = ''[]'' then Some (V_Array [])
                                       else if text = ''{}'' then Some (V_Object [])
                                       else None),
                 subscription_locations = [''eastus'', ''eastus2'', ''westus'']\<rparr>"

text \<open>Modelled from the spec: the definition of the first end-to-end scenario (int bounds).\<close>

definition int_bounds_definition :: ParameterDefinition where
  "int_bounds_definition = (plain_definition T_int)\<lparr>MinValue := Some 1, MaxValue := Some 10\<rparr>"

section \<open>Properties of the progress tracker\<close>

subsection \<open>The loops of sort.Slice end\<close>

text \<open>
  The scans of a partition stay between the two indices, so every round of a partition
  loop narrows the range; the pivot's final position lies inside the range, so both
  parts that \<open>pdqsort_func\<close> goes on with are shorter than the range.
\<close>

lemma scan_up_bounds: "i \<le> scan_up lt xs a i ju \<and> (i \<le> ju \<longrightarrow> scan_up lt xs a i ju \<le> ju)"
proof (induction lt xs a i ju rule: scan_up.induct)
  case (1 lt xs a i ju)
  show ?case
  proof (cases "i < ju \<and> lt (xs ! i) (xs ! a)")
    case True
    with 1 show ?thesis by (subst (1 2) scan_up.simps) auto
  next
    case False
    then show ?thesis by (subst (1 2) scan_up.simps) auto
  qed
qed

lemma scan_down_bounds:
  "scan_down lt xs a i ju \<le> ju \<and> (i \<le> ju \<longrightarrow> i \<le> scan_down lt xs a i ju)"
proof (induction lt xs a i ju rule: scan_down.induct)
  case (1 lt xs a i ju)
  show ?case
  proof (cases "i < ju \<and> \<not> lt (xs ! (ju - 1)) (xs ! a)")
    case True
    with 1 show ?thesis by (subst (1 2) scan_down.simps) auto
  next
    case False
    then show ?thesis by (subst (1 2) scan_down.simps) auto
  qed
qed

termination partition_loop
proof (relation "measure (\<lambda>(lt, xs, a, i, ju). ju - i)")
  show "wf (measure (\<lambda>(lt, xs, a, i, ju). ju - i))" by simp
next
  fix lt :: "'a \<Rightarrow> 'a \<Rightarrow> bool" and xs :: "'a list" and a i ju x xa
  assume "x = scan_up lt xs a i ju" and "xa = scan_down lt xs a x ju" and "\<not> \<not> x < xa"
  with scan_up_bounds [of i lt xs a ju] scan_down_bounds [of lt xs a x ju]
  show "((lt, data_Swap xs x (xa - 1), a, x + 1, xa - 1), (lt, xs, a, i, ju))
          \<in> measure (\<lambda>(lt, xs, a, i, ju). ju - i)"
    by auto
qed

declare partition_loop.simps [simp del]

lemma scan_up_equal_bounds:
  "i \<le> scan_up_equal lt xs a i ju \<and> (i \<le> ju \<longrightarrow> scan_up_equal lt xs a i ju \<le> ju)"
proof (induction lt xs a i ju rule: scan_up_equal.induct)
  case (1 lt xs a i ju)
  show ?case
  proof (cases "i < ju \<and> \<not> lt (xs ! a) (xs ! i)")
    case True
    with 1 show ?thesis by (subst (1 2) scan_up_equal.simps) auto
  next
    case False
    then show ?thesis by (subst (1 2) scan_up_equal.simps) auto
  qed
qed

lemma scan_down_equal_bounds:
  "scan_down_equal lt xs a i ju \<le> ju \<and> (i \<le> ju \<longrightarrow> i \<le> scan_down_equal lt xs a i ju)"
proof (induction lt xs a i ju rule: scan_down_equal.induct)
  case (1 lt xs a i ju)
  show ?case
  proof (cases "i < ju \<and> lt (xs ! a) (xs ! (ju - 1))")
    case True
    with 1 show ?thesis by (subst (1 2) scan_down_equal.simps) auto
  next
    case False
    then show ?thesis by (subst (1 2) scan_down_equal.simps) auto
  qed
qed

termination partitionEqual_loop
proof (relation "measure (\<lambda>(lt, xs, a, i, ju). ju - i)")
  show "wf (measure (\<lambda>(lt, xs, a, i, ju). ju - i))" by simp
next
  fix lt :: "'a \<Rightarrow> 'a \<Rightarrow> bool" and xs :: "'a list" and a i ju x xa
  assume "x = scan_up_equal lt xs a i ju" and "xa = scan_down_equal lt xs a x ju"
    and "\<not> \<not> x < xa"
  with scan_up_equal_bounds [of i lt xs a ju] scan_down_equal_bounds [of lt xs a x ju]
  show "((lt, data_Swap xs x (xa - 1), a, x + 1, xa - 1), (lt, xs, a, i, ju))
          \<in> measure (\<lambda>(lt, xs, a, i, ju). ju - i)"
    by auto
qed

declare partitionEqual_loop.simps [simp del]

lemma partition_loop_bounds:
  "snd (partition_loop lt xs a i ju) \<le> ju \<and>
   (i \<le> ju + 1 \<longrightarrow> i \<le> snd (partition_loop lt xs a i ju) + 1)"
proof (induction lt xs a i ju rule: partition_loop.induct)
  case (1 lt xs a i ju)
  let ?i = "scan_up lt xs a i ju"
  let ?ju = "scan_down lt xs a ?i ju"
  note u = scan_up_bounds [of i lt xs a ju]
  note d = scan_down_bounds [of lt xs a ?i ju]
  show ?case
  proof (cases "?i < ?ju")
    case False
    have "i \<le> ju + 1 \<Longrightarrow> i \<le> ?ju + 1"
    proof (cases "i \<le> ju")
      case True
      with u d show ?thesis by auto
    next
      case False
      assume "i \<le> ju + 1"
      with False have "i = ju + 1" by simp
      then have "?i = i" by (subst scan_up.simps) simp
      then have "?ju = ju" using \<open>i = ju + 1\<close> by (subst scan_down.simps) simp
      with \<open>i = ju + 1\<close> show ?thesis by simp
    qed
    with False d show ?thesis
      by (subst (1 2) partition_loop.simps) (simp add: Let_def)
  next
    case True
    from 1 [OF refl refl] True
    have "snd (partition_loop lt (data_Swap xs ?i (?ju - 1)) a (?i + 1) (?ju - 1)) \<le> ?ju - 1"
      and "?i + 1 \<le> snd (partition_loop lt (data_Swap xs ?i (?ju - 1)) a (?i + 1) (?ju - 1)) + 1"
      by auto
    with True u d show ?thesis
      by (subst (1 2) partition_loop.simps) (auto simp: Let_def)
  qed
qed

lemma partition_func_bounds:
  assumes "a < b" and "partition_func lt xs a b pivot = (ys, mid, ap)"
  shows "a \<le> mid \<and> mid < b"
proof -
  define zs where "zs = data_Swap xs a pivot"
  define i where "i = scan_up lt zs a (a + 1) b"
  define ju where "ju = scan_down lt zs a i b"
  define r where "r = snd (partition_loop lt (data_Swap zs i (ju - 1)) a (i + 1) (ju - 1))"
  from assms(1) scan_up_bounds [of "a + 1" lt zs a b]
  have i: "a + 1 \<le> i" "i \<le> b" by (auto simp: i_def)
  with scan_down_bounds [of lt zs a i b] have ju: "ju \<le> b" "i \<le> ju" by (auto simp: ju_def)
  have mid: "mid = (if \<not> i < ju then ju - 1 else r - 1)"
    using assms(2)
    by (auto simp: partition_func_def Let_def zs_def i_def ju_def r_def split: prod.splits)
  show ?thesis
  proof (cases "i < ju")
    case False
    with mid i ju show ?thesis by auto
  next
    case True
    with partition_loop_bounds [of lt "data_Swap zs i (ju - 1)" a "i + 1" "ju - 1"]
    have "r \<le> ju - 1" "i + 1 \<le> r + 1" by (auto simp: r_def)
    with True mid i ju show ?thesis by auto
  qed
qed

lemma partitionEqual_loop_bound: "i \<le> snd (partitionEqual_loop lt xs a i ju)"
proof (induction lt xs a i ju rule: partitionEqual_loop.induct)
  case (1 lt xs a i ju)
  let ?i = "scan_up_equal lt xs a i ju"
  let ?ju = "scan_down_equal lt xs a ?i ju"
  note u = scan_up_equal_bounds [of i lt xs a ju]
  show ?case
  proof (cases "?i < ?ju")
    case False
    with u show ?thesis by (subst partitionEqual_loop.simps) (simp add: Let_def)
  next
    case True
    from 1 [OF refl refl] True
    have "?i + 1 \<le> snd (partitionEqual_loop lt (data_Swap xs ?i (?ju - 1)) a (?i + 1) (?ju - 1))"
      by auto
    with True u show ?thesis by (subst partitionEqual_loop.simps) (auto simp: Let_def)
  qed
qed

lemma pdqsort_iteration_bounds:
  "pdqsort_iteration random lt xs a b limit wb wp = Equal_Partitioned ys mid limit' \<Longrightarrow>
     a < mid \<and> a < b"
  "pdqsort_iteration random lt xs a b limit wb wp = Partitioned ys mid ap limit' \<Longrightarrow>
     a \<le> mid \<and> mid < b"
proof -
  assume "pdqsort_iteration random lt xs a b limit wb wp = Equal_Partitioned ys mid limit'"
  then obtain zs pivot where "12 < b - a" "partitionEqual_func lt zs a b pivot = (ys, mid)"
    by (auto simp: pdqsort_iteration_def Let_def split: if_splits prod.splits)
  with partitionEqual_loop_bound [of "a + 1" lt "data_Swap zs a pivot" a b]
  show "a < mid \<and> a < b" by (auto simp: partitionEqual_func_def)
next
  assume "pdqsort_iteration random lt xs a b limit wb wp = Partitioned ys mid ap limit'"
  then obtain zs pivot where "12 < b - a" "partition_func lt zs a b pivot = (ys, mid, ap)"
    by (auto simp: pdqsort_iteration_def Let_def split: if_splits prod.splits)
  with partition_func_bounds [of a b lt zs pivot ys mid ap]
  show "a \<le> mid \<and> mid < b" by auto
qed

termination pdqsort_func
proof (relation "measure (\<lambda>(random, lt, xs, a, b, limit, wb, wp). b - a)", goal_cases)
  case 1
  show ?case by simp
next
  case (2 random lt xs a b limit wb wp ys mid limit')
  from pdqsort_iteration_bounds(1) [OF 2] show ?case by auto
next
  case (3 random lt xs a b limit wb wp ys mid ap limit')
  from pdqsort_iteration_bounds(2) [OF 3(1)] show ?case by auto
next
  case (4 random lt xs a b limit wb wp ys mid ap limit')
  from pdqsort_iteration_bounds(2) [OF 4(1)] show ?case by auto
next
  case (5 random lt xs a b limit wb wp ys mid ap limit')
  from pdqsort_iteration_bounds(2) [OF 5(1)] show ?case by auto
next
  case (6 random lt xs a b limit wb wp ys mid ap limit')
  from pdqsort_iteration_bounds(2) [OF 6(1)] show ?case by auto
qed

declare pdqsort_func.simps [simp del]

subsection \<open>Auxiliary facts\<close>

lemma states_distinct:
  "ProvisioningStateSucceeded \<noteq> ProvisioningStateRunning"
  "ProvisioningStateSucceeded \<noteq> ProvisioningStateFailed"
  "ProvisioningStateRunning \<noteq> ProvisioningStateFailed"
  by (simp_all add: ProvisioningStateSucceeded_def ProvisioningStateRunning_def
      ProvisioningStateFailed_def)

lemma classifyOperations_filter:
  "classifyOperations disp ops (a, b, c) = Some (a', b', c') \<Longrightarrow>
     a' = a @ filter (newly disp ProvisioningStateSucceeded) ops \<and>
     b' = b @ filter (newly disp ProvisioningStateFailed) ops \<and>
     c' = c @ filter (newly disp ProvisioningStateRunning) ops"
proof (induction ops arbitrary: a b c)
  case Nil
  then show ?case by simp
next
  case (Cons opn ops)
  from Cons.prems obtain props where p: "op_Properties opn = Some props"
    by (auto split: option.splits)
  show ?case
  proof (cases "TargetResource props")
    case None
    with p Cons show ?thesis
      by (auto simp: newly_def op_ResourceName_def op_TargetResource_def)
  next
    case (Some target)
    with p Cons.prems obtain name where n: "ResourceName target = Some name"
      by (auto split: option.splits)
    have rn: "op_ResourceName opn = Some name"
      using p Some n by (simp add: op_ResourceName_def op_TargetResource_def)
    show ?thesis
    proof (cases "displayed disp name")
      case True
      with p Some n rn Cons show ?thesis by (auto simp: newly_def)
    next
      case False
      with p Some n Cons.prems obtain st where st: "ProvisioningState props = Some st"
        by (auto split: option.splits)
      have ps: "op_ProvisioningState opn = Some st"
        using p st by (simp add: op_ProvisioningState_def)
      from Cons.prems p Some n False st states_distinct show ?thesis
        by (auto simp: newly_def rn ps dest!: Cons.IH split: if_splits)
    qed
  qed
qed

lemma map_filter_append: "List.map_filter f (xs @ ys) = List.map_filter f xs @ List.map_filter f ys"
  by (simp add: List.map_filter_def)

lemma emitted_names_simps [simp]:
  "emitted_names [] = []"
  "emitted_names (e # ev) = (case event_name e of None \<Rightarrow> [] | Some n \<Rightarrow> [n]) @ emitted_names ev"
  "emitted_names (xs @ ys) = emitted_names xs @ emitted_names ys"
  by (simp_all add: emitted_names_def List.map_filter_def split: option.splits)

lemma log_lines_simps [simp]:
  "log_lines [] = []"
  "log_lines (e # ev) = (case event_log e of None \<Rightarrow> [] | Some n \<Rightarrow> [n]) @ log_lines ev"
  "log_lines (xs @ ys) = log_lines xs @ log_lines ys"
  by (simp_all add: log_lines_def List.map_filter_def split: option.splits)

lemma announcements_simps [simp]:
  "announcements [] = []"
  "announcements (e # ev) =
     (case event_announcement e of None \<Rightarrow> [] | Some n \<Rightarrow> [n]) @ announcements ev"
  "announcements (xs @ ys) = announcements xs @ announcements ys"
  by (simp_all add: announcements_def List.map_filter_def split: option.splits)

lemma spinners_simps [simp]:
  "spinners [] = []"
  "spinners (e # ev) = (case event_spinner e of None \<Rightarrow> [] | Some n \<Rightarrow> [n]) @ spinners ev"
  "spinners (xs @ ys) = spinners xs @ spinners ys"
  by (simp_all add: spinners_def List.map_filter_def split: option.splits)

lemma logResource_panicked:
  "logResource d w r s = (True, s', ev) \<Longrightarrow> s' = s"
  unfolding logResource_def Let_def
  by (simp split: option.splits if_splits prod.splits)

lemma logResource_Some:
  assumes "op_ResourceType r = Some ty" and "op_ID r = Some rid"
  shows "logResource d w r s =
     (case (if typeDisplayName d w rid ty \<noteq> []
            then map_option (\<lambda>item. ([MessageUxItem item], typeDisplayName d w rid ty))
                   (uxRow d r (typeDisplayName d w rid ty))
            else Some ([], ty)) of
        None \<Rightarrow> (True, s, [])
      | Some (ux, loggedTypeName) \<Rightarrow>
          (case logLine d r loggedTypeName of
             None \<Rightarrow> (True, s, ux)
           | Some line \<Rightarrow>
               (case op_ResourceName r of
                  None \<Rightarrow> (True, s, ux @ [LogPrintf line])
                | Some name \<Rightarrow>
                    (False, s\<lparr>displayedResources := (displayedResources s)(name \<mapsto> True)\<rparr>,
                     ux @ [LogPrintf line]))))"
  using assms by (simp add: logResource_def Let_def)

lemma uxRow_name:
  "uxRow d r shown = Some item \<Longrightarrow>
     \<exists>name. op_ResourceName r = Some name \<and> event_name (MessageUxItem item) = Some name \<and>
       event_log (MessageUxItem item) = None"
  unfolding uxRow_def by (simp split: option.splits) auto

lemma logResource_names:
  assumes "logResource d w r s = (p, s', ev)"
  shows "emitted_names ev = [] \<or>
         (\<exists>name. op_ResourceName r = Some name \<and> emitted_names ev = [name])"
proof (cases "op_ResourceType r")
  case None
  with assms show ?thesis by (simp add: logResource_def)
next
  case (Some ty)
  show ?thesis
  proof (cases "op_ID r")
    case None
    with assms Some show ?thesis by (simp add: logResource_def)
  next
    case rid: (Some rid)
    let ?shown = "typeDisplayName d w rid ty"
    show ?thesis
    proof (cases "?shown = []")
      case True
      with assms show ?thesis
        unfolding logResource_Some [OF Some rid]
        by (auto split: option.splits simp: emitted_names_simps)
    next
      case False
      show ?thesis
      proof (cases "uxRow d r ?shown")
        case None
        with assms False show ?thesis
          unfolding logResource_Some [OF Some rid] by (auto simp: emitted_names_simps)
      next
        case (Some item)
        from uxRow_name [OF Some] obtain name where
          n: "op_ResourceName r = Some name" "event_name (MessageUxItem item) = Some name"
          by blast
        with assms False Some show ?thesis
          unfolding logResource_Some [OF \<open>op_ResourceType r = Some ty\<close> rid]
          by (auto split: option.splits simp: emitted_names_simps)
      qed
    qed
  qed
qed

lemma logLine_Timestamp: "logLine d r ty = Some line \<Longrightarrow> op_Timestamp r \<noteq> None"
  unfolding logLine_def by (simp split: option.splits)

lemma logResource_completed:
  assumes "logResource d w r s = (False, s', ev)"
  shows "\<exists>name shown line.
           op_ResourceName r = Some name \<and> resolvedTypeName d w r = Some shown \<and>
           resourceLogLine d w r = Some line \<and> op_Timestamp r \<noteq> None \<and>
           s' = s\<lparr>displayedResources := (displayedResources s)(name \<mapsto> True)\<rparr> \<and>
           emitted_names ev = (if shown \<noteq> [] then [name] else []) \<and>
           log_lines ev = [line]"
proof -
  from assms obtain ty where ty: "op_ResourceType r = Some ty"
    by (cases "op_ResourceType r") (simp_all add: logResource_def)
  from assms ty obtain rid where rid: "op_ID r = Some rid"
    by (cases "op_ID r") (simp_all add: logResource_def)
  let ?shown = "typeDisplayName d w rid ty"
  have res: "resolvedTypeName d w r = Some ?shown"
    by (simp add: resolvedTypeName_def ty rid)
  note unf = assms [unfolded logResource_Some [OF ty rid]]
  show ?thesis
  proof (cases "?shown = []")
    case True
    from unf True obtain line where l: "logLine d r ty = Some line"
      by (cases "logLine d r ty") simp_all
    from unf True l obtain name where n: "op_ResourceName r = Some name"
      by (cases "op_ResourceName r") simp_all
    have "resourceLogLine d w r = Some line"
      by (simp add: resourceLogLine_def res ty True l)
    with unf True l n res logLine_Timestamp [OF l] show ?thesis by auto
  next
    case False
    from unf False obtain item where i: "uxRow d r ?shown = Some item"
      by (cases "uxRow d r ?shown") simp_all
    from unf False i obtain line where l: "logLine d r ?shown = Some line"
      by (cases "logLine d r ?shown") simp_all
    from uxRow_name [OF i] obtain name where
      n: "op_ResourceName r = Some name" "event_name (MessageUxItem item) = Some name"
         "event_log (MessageUxItem item) = None"
      by blast
    have "resourceLogLine d w r = Some line"
      by (simp add: resourceLogLine_def res ty False l)
    with unf False i l n res logLine_Timestamp [OF l] show ?thesis by auto
  qed
qed

lemma logResource_started:
  "logResource d w r s = (p, s', ev) \<Longrightarrow> deploymentStarted s' = deploymentStarted s"
  by (cases p) (auto dest: logResource_panicked logResource_completed)

lemma resource_names_simps [simp]:
  "resource_names [] = []"
  "resource_names (r # rs) = (case op_ResourceName r of None \<Rightarrow> [] | Some n \<Rightarrow> [n]) @ resource_names rs"
  "resource_names (xs @ ys) = resource_names xs @ resource_names ys"
  by (simp_all add: resource_names_def List.map_filter_def split: option.splits)

lemma set_resource_names:
  "set (resource_names ops) = {n. \<exists>r \<in> set ops. op_ResourceName r = Some n}"
  by (induction ops) (auto split: option.splits)

lemma logResources_names:
  "logResources d w rs s = (p, s', ev) \<Longrightarrow> set (emitted_names ev) \<subseteq> set (resource_names rs)"
proof (induction rs arbitrary: s p s' ev)
  case Nil
  then show ?case by simp
next
  case (Cons r rs)
  obtain p1 s1 ev1 where one: "logResource d w r s = (p1, s1, ev1)"
    by (cases "logResource d w r s") auto
  obtain p2 s2 ev2 where rest: "logResources d w rs s1 = (p2, s2, ev2)"
    by (cases "logResources d w rs s1") auto
  from logResource_names [OF one]
  have "set (emitted_names ev1) \<subseteq> set (resource_names [r])" by auto
  moreover from Cons.IH [OF rest]
  have "set (emitted_names ev2) \<subseteq> set (resource_names rs)" .
  moreover from Cons.prems one rest have "ev = ev1 \<or> ev = ev1 @ ev2"
    by (cases p1) auto
  ultimately show ?case by (auto split: option.splits)
qed

lemma logResources_displayed:
  "logResources d w rs s = (p, s', ev) \<Longrightarrow>
     deploymentStarted s' = deploymentStarted s \<and>
     (\<forall>n. displayed (displayedResources s') n \<longrightarrow>
           displayed (displayedResources s) n \<or> n \<in> set (resource_names rs)) \<and>
     (\<forall>n. displayed (displayedResources s) n \<longrightarrow> displayed (displayedResources s') n)"
proof (induction rs arbitrary: s p s' ev)
  case Nil
  then show ?case by simp
next
  case (Cons r rs)
  obtain p1 s1 ev1 where one: "logResource d w r s = (p1, s1, ev1)"
    by (cases "logResource d w r s") auto
  show ?case
  proof (cases p1)
    case True
    with one Cons.prems logResource_panicked [of d w r s s1 ev1] show ?thesis by auto
  next
    case False
    obtain p2 s2 ev2 where rest: "logResources d w rs s1 = (p2, s2, ev2)"
      by (cases "logResources d w rs s1") auto
    from one False logResource_completed [of d w r s s1 ev1] obtain name where
      n: "op_ResourceName r = Some name"
         "s1 = s\<lparr>displayedResources := (displayedResources s)(name \<mapsto> True)\<rparr>"
      by auto
    from Cons.prems one False rest have "s' = s2" by simp
    with Cons.IH [OF rest] n show ?thesis
      by (auto simp: displayed_def split: if_splits)
  qed
qed

lemma logResources_completed:
  "logResources d w rs s = (False, s', ev) \<Longrightarrow>
     (\<forall>n \<in> set (resource_names rs). displayed (displayedResources s') n) \<and>
     map Some (emitted_names ev) =
       map op_ResourceName (filter (\<lambda>r. resolvedTypeName d w r \<noteq> Some []) rs) \<and>
     map Some (log_lines ev) = map (resourceLogLine d w) rs \<and>
     (\<forall>r \<in> set rs. op_Timestamp r \<noteq> None \<and> resolvedTypeName d w r \<noteq> None)"
proof (induction rs arbitrary: s s' ev)
  case Nil
  then show ?case by simp
next
  case (Cons r rs)
  obtain p1 s1 ev1 where one: "logResource d w r s = (p1, s1, ev1)"
    by (cases "logResource d w r s") auto
  with Cons.prems have p1: "\<not> p1" by (cases p1) auto
  obtain p2 s2 ev2 where rest: "logResources d w rs s1 = (p2, s2, ev2)"
    by (cases "logResources d w rs s1") auto
  with Cons.prems one p1 have eq: "p2 = False" "s' = s2" "ev = ev1 @ ev2" by auto
  from one p1 logResource_completed [of d w r s s1 ev1] obtain name shown line where
    c: "op_ResourceName r = Some name" "resolvedTypeName d w r = Some shown"
       "resourceLogLine d w r = Some line" "op_Timestamp r \<noteq> None"
       "s1 = s\<lparr>displayedResources := (displayedResources s)(name \<mapsto> True)\<rparr>"
       "emitted_names ev1 = (if shown \<noteq> [] then [name] else [])" "log_lines ev1 = [line]"
    by auto
  have "displayed (displayedResources s1) name" using c by (simp add: displayed_def)
  with logResources_displayed [OF rest] have "displayed (displayedResources s2) name" by blast
  with Cons.IH [OF rest [unfolded eq(1)]] c eq show ?case by auto
qed

lemma announce_facts:
  assumes "announce d w s = (r, s0, ev0)"
  shows "displayedResources s0 = displayedResources s"
    and "emitted_names ev0 = []"
    and "deploymentStarted s \<Longrightarrow> s0 = s \<and> ev0 = [] \<and> r = None"
    and "r = None \<Longrightarrow> log_lines ev0 = [] \<and> spinners ev0 = [] \<and> deploymentStarted s0"
    and "r = Some out \<Longrightarrow> spinners ev0 = [] \<and> (\<exists>e. out = Returned e)"
  using assms
  by (auto simp: announce_def Let_def split: if_splits option.splits sum.splits)

lemma logNewlyCreatedResources_facts:
  assumes "logNewlyCreatedResources d w s rs ips = (p, s', ev)"
  shows "\<exists>p1 ev1. logResources d w rs s = (p1, s', ev1) \<and>
           emitted_names ev = emitted_names ev1 \<and> log_lines ev = log_lines ev1 \<and>
           (\<not> p \<longrightarrow> \<not> p1 \<and> (\<exists>names. inProgressNames d w ips = Some names \<and>
                                   ev = ev1 @ spinner w names))"
proof -
  obtain p1 s1 ev1 where lr: "logResources d w rs s = (p1, s1, ev1)"
    by (cases "logResources d w rs s") auto
  have sp: "emitted_names (spinner w ns) = [] \<and> log_lines (spinner w ns) = []" for ns
    by (simp add: spinner_def)
  from assms lr sp show ?thesis
    by (cases p1; cases "inProgressNames d w ips")
       (auto simp: logNewlyCreatedResources_def)
qed

lemma ReportProgress_anatomy:
  assumes "ReportProgress d w q s = (out, s', ev)"
  shows "(emitted_names ev = [] \<and> displayedResources s' = displayedResources s \<and>
          out \<noteq> Returned None \<or>
          emitted_names ev = [] \<and> s' = s \<and> out = Returned None \<and>
            \<not> deploymentStarted s \<and> deployment_Get w \<noteq> None) \<or>
         (\<exists>ops s0 ev0 ev1 p.
            announce d w s = (None, s0, ev0) \<and>
            rm_GetDeploymentResourceOperations w q = Inr ops \<and>
            \<not> sort_panics (filter (newly (displayedResources s) ProvisioningStateSucceeded) ops) \<and>
            logNewlyCreatedResources d w s0 (processed d (displayedResources s) ops)
              (filter (newly (displayedResources s) ProvisioningStateRunning) ops) = (p, s', ev1) \<and>
            ev = ev0 @ ev1 \<and> out = (if p then Panicked else Returned None))"
proof -
  obtain r s0 ev0 where a: "announce d w s = (r, s0, ev0)"
    by (cases "announce d w s") auto
  note af = announce_facts [OF a]
  show ?thesis
  proof (cases r)
    case (Some out0)
    with assms a have eq: "out = out0" "s' = s0" "ev = ev0" by (simp_all add: ReportProgress_def)
    from a Some have "out0 = Returned None \<longrightarrow> s0 = s \<and> \<not> deploymentStarted s \<and> deployment_Get w \<noteq> None"
      by (auto simp: announce_def Let_def split: if_splits option.splits sum.splits)
    with eq af(1,2) show ?thesis by auto
  next
    case None
    show ?thesis
    proof (cases "rm_GetDeploymentResourceOperations w q")
      case (Inl err)
      with assms a None have "out = Returned (Some err)" "s' = s0" "ev = ev0"
        by (simp_all add: ReportProgress_def)
      with af(1,2) show ?thesis by auto
    next
      case (Inr ops)
      show ?thesis
      proof (cases "classifyOperations (displayedResources s0) ops ([], [], [])")
        case cn: None
        with assms a None Inr have "out = Panicked" "s' = s0" "ev = ev0"
          by (simp_all add: ReportProgress_def)
        with af(1,2) show ?thesis by auto
      next
        case (Some triple)
        obtain nd nf rd where t: "triple = (nd, nf, rd)" by (cases triple) auto
        from classifyOperations_filter [OF Some [unfolded t]] af(1)
        have f: "nd = filter (newly (displayedResources s) ProvisioningStateSucceeded) ops"
                "nf = filter (newly (displayedResources s) ProvisioningStateFailed) ops"
                "rd = filter (newly (displayedResources s) ProvisioningStateRunning) ops"
          by simp_all
        show ?thesis
        proof (cases "sort_panics nd")
          case True
          with assms a None Inr Some t have "out = Panicked" "s' = s0" "ev = ev0"
            by (simp_all add: ReportProgress_def)
          with af(1,2) show ?thesis by auto
        next
          case False
          obtain p s1 ev1 where l:
            "logNewlyCreatedResources d w s0 (sort_Slice d timestamp_Before nd @ nf) rd = (p, s1, ev1)"
            by (cases "logNewlyCreatedResources d w s0 (sort_Slice d timestamp_Before nd @ nf) rd") auto
          with assms a None Inr Some t False
          have "out = (if p then Panicked else Returned None)" "s' = s1" "ev = ev0 @ ev1"
            by (cases p; simp add: ReportProgress_def)+
          with a None Inr l False f show ?thesis
            by (auto simp: processed_def)
        qed
      qed
    qed
  qed
qed

lemma newly_name:
  "newly disp st r \<Longrightarrow> \<exists>n. op_ResourceName r = Some n \<and> \<not> displayed disp n"
  by (auto simp: newly_def split: option.splits)

lemma set_processed:
  assumes "sort_Slice_contract d"
    and "\<not> sort_panics (filter (newly disp ProvisioningStateSucceeded) ops)"
  shows "set (processed d disp ops) =
           {r \<in> set ops. newly disp ProvisioningStateSucceeded r \<or>
                          newly disp ProvisioningStateFailed r}"
proof -
  let ?nd = "filter (newly disp ProvisioningStateSucceeded) ops"
  from assms have "mset (sort_Slice d timestamp_Before ?nd) = mset ?nd"
    by (simp add: sort_Slice_contract_def)
  then have "set (sort_Slice d timestamp_Before ?nd) = set ?nd"
    by (rule mset_eq_setD)
  then show ?thesis by (auto simp: processed_def)
qed

lemma processed_names_fresh:
  assumes "sort_Slice_contract d"
    and "\<not> sort_panics (filter (newly disp ProvisioningStateSucceeded) ops)"
    and "n \<in> set (resource_names (processed d disp ops))"
  shows "\<not> displayed disp n" and "n \<in> set (resource_names ops)"
  using assms(3) newly_name unfolding set_resource_names set_processed [OF assms(1,2)]
  by fastforce+

lemma tick_names_fresh:
  assumes "sort_Slice_contract d" and "ReportProgress d w q s = (out, s', ev)"
    and "n \<in> set (emitted_names ev)"
  shows "\<not> displayed (displayedResources s) n"
proof -
  from ReportProgress_anatomy [OF assms(2)] assms(3) obtain ops s0 ev0 ev1 p where
    a: "announce d w s = (None, s0, ev0)"
       "\<not> sort_panics (filter (newly (displayedResources s) ProvisioningStateSucceeded) ops)"
       "logNewlyCreatedResources d w s0 (processed d (displayedResources s) ops)
              (filter (newly (displayedResources s) ProvisioningStateRunning) ops) = (p, s', ev1)"
       "ev = ev0 @ ev1"
    by auto
  from logNewlyCreatedResources_facts [OF a(3)] obtain p1 ev2 where
    l: "logResources d w (processed d (displayedResources s) ops) s0 = (p1, s', ev2)"
       "emitted_names ev1 = emitted_names ev2"
    by blast
  from assms(3) a(4) announce_facts(2) [OF a(1)] l(2) have "n \<in> set (emitted_names ev2)"
    by simp
  with logResources_names [OF l(1)]
  have "n \<in> set (resource_names (processed d (displayedResources s) ops))" by blast
  from processed_names_fresh(1) [OF assms(1) a(2) this] show ?thesis .
qed

lemma tick_monotone:
  assumes "ReportProgress d w q s = (out, s', ev)" and "displayed (displayedResources s) n"
  shows "displayed (displayedResources s') n"
proof -
  from ReportProgress_anatomy [OF assms(1)]
  consider "displayedResources s' = displayedResources s"
    | ops s0 ev0 ev1 p where "announce d w s = (None, s0, ev0)"
       "logNewlyCreatedResources d w s0 (processed d (displayedResources s) ops)
              (filter (newly (displayedResources s) ProvisioningStateRunning) ops) = (p, s', ev1)"
    by auto
  then show ?thesis
  proof cases
    case 1
    with assms(2) show ?thesis by simp
  next
    case 2
    from logNewlyCreatedResources_facts [OF 2(2)] obtain p1 ev2 where
      "logResources d w (processed d (displayedResources s) ops) s0 = (p1, s', ev2)" by blast
    from logResources_displayed [OF this] announce_facts(1) [OF 2(1)] assms(2)
    show ?thesis by simp
  qed
qed

lemma tick_names_recorded:
  assumes "ReportProgress d w q s = (Returned e, s', ev)" and "n \<in> set (emitted_names ev)"
  shows "displayed (displayedResources s') n"
proof -
  from ReportProgress_anatomy [OF assms(1)] assms(2) obtain ops s0 ev0 ev1 p where
    a: "announce d w s = (None, s0, ev0)"
       "logNewlyCreatedResources d w s0 (processed d (displayedResources s) ops)
              (filter (newly (displayedResources s) ProvisioningStateRunning) ops) = (p, s', ev1)"
       "ev = ev0 @ ev1" "Returned e = (if p then Panicked else Returned None)"
    by auto
  from a(4) have np: "\<not> p" by (cases p) auto
  from logNewlyCreatedResources_facts [OF a(2)] np obtain ev2 where
    l: "logResources d w (processed d (displayedResources s) ops) s0 = (False, s', ev2)"
       "emitted_names ev1 = emitted_names ev2"
    by auto
  from assms(2) a(3) announce_facts(2) [OF a(1)] l(2) have "n \<in> set (emitted_names ev2)"
    by simp
  with logResources_names [OF l(1)] logResources_completed [OF l(1)] show ?thesis by blast
qed

lemma run_ticks_fresh:
  assumes "sort_Slice_contract d"
  shows "ev \<in> set (run_ticks d ticks s) \<Longrightarrow> n \<in> set (emitted_names ev) \<Longrightarrow>
           \<not> displayed (displayedResources s) n"
proof (induction ticks arbitrary: s)
  case Nil
  then show ?case by simp
next
  case (Cons t ticks)
  obtain w q where t: "t = (w, q)" by (cases t) auto
  obtain out s' ev0 where r: "ReportProgress d w q s = (out, s', ev0)"
    by (cases "ReportProgress d w q s") auto
  show ?case
  proof (cases "ev = ev0")
    case True
    with tick_names_fresh [OF assms r] Cons.prems(2) show ?thesis by simp
  next
    case False
    with Cons.prems(1) t r obtain e where
      "out = Returned e" "ev \<in> set (run_ticks d ticks s')"
      by (cases out) auto
    from Cons.IH [OF this(2) Cons.prems(2)] tick_monotone [OF r] show ?thesis by blast
  qed
qed

lemma run_ticks_disjoint:
  assumes "sort_Slice_contract d"
  shows "i < j \<Longrightarrow> j < length (run_ticks d ticks s) \<Longrightarrow>
           set (emitted_names (run_ticks d ticks s ! i)) \<inter>
           set (emitted_names (run_ticks d ticks s ! j)) = {}"
proof (induction ticks arbitrary: s i j)
  case Nil
  then show ?case by simp
next
  case (Cons t ticks)
  obtain w q where t: "t = (w, q)" by (cases t) auto
  obtain out s' ev0 where r: "ReportProgress d w q s = (out, s', ev0)"
    by (cases "ReportProgress d w q s") auto
  from Cons.prems t r obtain e where out: "out = Returned e"
    by (cases out) auto
  have run: "run_ticks d (t # ticks) s = ev0 # run_ticks d ticks s'"
    using t r out by simp
  from Cons.prems obtain j' where j: "j = Suc j'" by (cases j) auto
  with Cons.prems(2) run have j': "j' < length (run_ticks d ticks s')" by simp
  show ?case
  proof (cases i)
    case 0
    have "n \<in> set (emitted_names ev0) \<Longrightarrow> n \<notin> set (emitted_names (run_ticks d ticks s' ! j'))" for n
      using tick_names_recorded [OF r [unfolded out]] run_ticks_fresh [OF assms, of _ ticks s' n] j'
      by (meson nth_mem)
    with 0 j run show ?thesis by auto
  next
    case (Suc i')
    with Cons.prems(1) j have "i' < j'" by simp
    from Cons.IH [OF this j'] Suc j run show ?thesis by simp
  qed
qed

lemma sub_mset_distinct:
  assumes "mset ys \<subseteq># mset xs" and "distinct xs"
  shows "distinct ys"
proof -
  have "count (mset ys) a \<le> 1" for a
  proof -
    have "count (mset ys) a \<le> count (mset xs) a"
      using assms(1) by (rule mset_subset_eq_count)
    also have "\<dots> \<le> 1" using assms(2) by (simp add: distinct_count_atmost_1)
    finally show ?thesis .
  qed
  then show ?thesis
  proof (induction ys)
    case Nil
    then show ?case by simp
  next
    case (Cons y ys)
    have "count (mset ys) a \<le> 1" for a
      using Cons.prems [of a] by (cases "a = y") (simp_all add: count_eq_zero_iff [THEN iffD2])
    with Cons.IH have "distinct ys" by blast
    moreover have "y \<notin> set ys"
      using Cons.prems [of y] by (simp add: count_eq_zero_iff)
    ultimately show ?case by simp
  qed
qed

lemma disjoint_filters_subset:
  assumes "\<And>x. A x \<Longrightarrow> \<not> B x"
  shows "mset (filter A xs) + mset (filter B xs) \<subseteq># mset xs"
proof (rule mset_subset_eqI)
  fix a
  show "count (mset (filter A xs) + mset (filter B xs)) a \<le> count (mset xs) a"
    using assms [of a] by (induction xs) auto
qed

lemma mset_resource_names:
  "mset (resource_names xs) =
     image_mset (the \<circ> op_ResourceName) (filter_mset (\<lambda>r. op_ResourceName r \<noteq> None) (mset xs))"
  by (simp add: resource_names_def List.map_filter_def)

lemma mset_processed_subset:
  assumes "sort_Slice_contract d"
    and "\<not> sort_panics (filter (newly disp ProvisioningStateSucceeded) ops)"
  shows "mset (processed d disp ops) \<subseteq># mset ops"
proof -
  let ?A = "newly disp ProvisioningStateSucceeded"
  let ?B = "newly disp ProvisioningStateFailed"
  from assms have "mset (sort_Slice d timestamp_Before (filter ?A ops)) = mset (filter ?A ops)"
    by (simp add: sort_Slice_contract_def)
  then have "mset (processed d disp ops) = mset (filter ?A ops) + mset (filter ?B ops)"
    by (simp add: processed_def)
  also have "\<dots> \<subseteq># mset ops"
    by (rule disjoint_filters_subset) (use states_distinct in \<open>auto simp: newly_def split: option.splits\<close>)
  finally show ?thesis .
qed

lemma distinct_processed_names:
  assumes "sort_Slice_contract d"
    and "\<not> sort_panics (filter (newly disp ProvisioningStateSucceeded) ops)"
    and "distinct (resource_names ops)"
  shows "distinct (resource_names (processed d disp ops))"
proof -
  have "mset (resource_names (processed d disp ops)) \<subseteq># mset (resource_names ops)"
    unfolding mset_resource_names
    by (intro image_mset_subseteq_mono multiset_filter_mono mset_processed_subset [OF assms(1,2)])
  with assms(3) show ?thesis
    by (rule sub_mset_distinct [rotated])
qed

lemma logResources_distinct:
  "logResources d w rs s = (p, s', ev) \<Longrightarrow> distinct (resource_names rs) \<Longrightarrow>
     distinct (emitted_names ev)"
proof (induction rs arbitrary: s p s' ev)
  case Nil
  then show ?case by simp
next
  case (Cons r rs)
  obtain p1 s1 ev1 where one: "logResource d w r s = (p1, s1, ev1)"
    by (cases "logResource d w r s") auto
  obtain p2 s2 ev2 where rest: "logResources d w rs s1 = (p2, s2, ev2)"
    by (cases "logResources d w rs s1") auto
  from Cons.prems(2) have drs: "distinct (resource_names rs)" by (simp split: option.splits)
  from Cons.prems one rest have ev: "ev = ev1 \<or> ev = ev1 @ ev2"
    by (cases p1) auto
  from logResource_names [OF one] Cons.IH [OF rest drs] logResources_names [OF rest]
    Cons.prems(2) ev
  show ?case by (auto split: option.splits)
qed

lemma tick_distinct:
  assumes "sort_Slice_contract d" and "ReportProgress d w q s = (out, s', ev)"
    and "\<And>ops. rm_GetDeploymentResourceOperations w q = Inr ops \<Longrightarrow> distinct (resource_names ops)"
  shows "distinct (emitted_names ev)"
proof (cases "emitted_names ev = []")
  case True
  then show ?thesis by simp
next
  case False
  with ReportProgress_anatomy [OF assms(2)] obtain ops s0 ev0 ev1 p where
    a: "announce d w s = (None, s0, ev0)"
       "rm_GetDeploymentResourceOperations w q = Inr ops"
       "\<not> sort_panics (filter (newly (displayedResources s) ProvisioningStateSucceeded) ops)"
       "logNewlyCreatedResources d w s0 (processed d (displayedResources s) ops)
              (filter (newly (displayedResources s) ProvisioningStateRunning) ops) = (p, s', ev1)"
       "ev = ev0 @ ev1"
    by auto
  from logNewlyCreatedResources_facts [OF a(4)] obtain p1 ev2 where
    l: "logResources d w (processed d (displayedResources s) ops) s0 = (p1, s', ev2)"
       "emitted_names ev1 = emitted_names ev2"
    by blast
  from logResources_distinct [OF l(1) distinct_processed_names [OF assms(1) a(3) assms(3) [OF a(2)]]]
    a(5) announce_facts(2) [OF a(1)] l(2)
  show ?thesis by simp
qed

lemma run_ticks_distinct:
  assumes "sort_Slice_contract d"
  shows "(\<And>w q ops. (w, q) \<in> set ticks \<Longrightarrow> rm_GetDeploymentResourceOperations w q = Inr ops \<Longrightarrow>
             distinct (resource_names ops)) \<Longrightarrow>
         distinct (concat (map emitted_names (run_ticks d ticks s)))"
proof (induction ticks arbitrary: s)
  case Nil
  then show ?case by simp
next
  case (Cons t ticks)
  obtain w q where t: "t = (w, q)" by (cases t) auto
  obtain out s' ev0 where r: "ReportProgress d w q s = (out, s', ev0)"
    by (cases "ReportProgress d w q s") auto
  have d0: "distinct (emitted_names ev0)"
    by (rule tick_distinct [OF assms r]) (use Cons.prems t in auto)
  show ?case
  proof (cases out)
    case Panicked
    with t r d0 show ?thesis by simp
  next
    case (Returned e)
    have rest: "distinct (concat (map emitted_names (run_ticks d ticks s')))"
      by (rule Cons.IH) (use Cons.prems in auto)
    have "n \<in> set (emitted_names ev0) \<Longrightarrow> ev \<in> set (run_ticks d ticks s') \<Longrightarrow>
            n \<notin> set (emitted_names ev)" for n ev
      using tick_names_recorded [OF r [unfolded Returned]] run_ticks_fresh [OF assms] by blast
    with t r Returned d0 rest show ?thesis by auto
  qed
qed

lemma uxRow_kind:
  "uxRow d r shown = Some item \<Longrightarrow>
     event_announcement (MessageUxItem item) = None \<and> event_spinner (MessageUxItem item) = None"
  unfolding uxRow_def by (auto split: option.splits)

lemma logResource_quiet:
  assumes "logResource d w r s = (p, s', ev)"
  shows "announcements ev = [] \<and> spinners ev = []"
proof (cases "op_ResourceType r")
  case None
  with assms show ?thesis by (simp add: logResource_def)
next
  case (Some ty)
  show ?thesis
  proof (cases "op_ID r")
    case None
    with assms Some show ?thesis by (simp add: logResource_def)
  next
    case rid: (Some rid)
    from assms uxRow_kind [of d r "typeDisplayName d w rid ty"] show ?thesis
      unfolding logResource_Some [OF Some rid]
      by (auto split: option.splits if_splits)
  qed
qed

lemma logResources_quiet:
  "logResources d w rs s = (p, s', ev) \<Longrightarrow> announcements ev = [] \<and> spinners ev = []"
proof (induction rs arbitrary: s p s' ev)
  case Nil
  then show ?case by simp
next
  case (Cons r rs)
  obtain p1 s1 ev1 where one: "logResource d w r s = (p1, s1, ev1)"
    by (cases "logResource d w r s") auto
  obtain p2 s2 ev2 where rest: "logResources d w rs s1 = (p2, s2, ev2)"
    by (cases "logResources d w rs s1") auto
  from Cons.prems one rest have "ev = ev1 \<or> ev = ev1 @ ev2"
    by (cases p1) auto
  with logResource_quiet [OF one] Cons.IH [OF rest] show ?case by auto
qed

lemma logNewlyCreatedResources_announcements:
  assumes "logNewlyCreatedResources d w s rs ips = (p, s', ev)"
  shows "announcements ev = []"
proof -
  obtain p1 s1 ev1 where lr: "logResources d w rs s = (p1, s1, ev1)"
    by (cases "logResources d w rs s") auto
  have sp: "announcements (spinner w ns) = []" for ns
    by (simp add: spinner_def)
  from assms lr sp logResources_quiet [OF lr] show ?thesis
    by (cases p1; cases "inProgressNames d w ips")
       (auto simp: logNewlyCreatedResources_def)
qed

subsection \<open>The announcement and the demo mode\<close>

text \<open>
  C8, as amended. On the first call on which \<open>Deployment.Get\<close> succeeds and the portal URL
  is obtained, exactly one multi-line announcement is written. If \<open>AZD_DEMO_MODE\<close> parses as
  true, it is the prelude line and a line break, whatever the URL is; otherwise it is the
  prelude line and the link line, and the link line contains the URL.
\<close>

theorem demo_mode_announcement:
  assumes "\<not> deploymentStarted display"
    and "deployment_Get w = None"
    and "deployment_DeploymentUrl w = Inr url"
  shows "announcements (snd (snd (ReportProgress d w queryStart display))) =
           [if strconv_ParseBool (Getenv_AZD_DEMO_MODE w) = Some True
            then [portal_prelude @ ''.'', [CHR 0x0A]]
            else [portal_prelude @ '':'',
                  link_colour_on d @ url @ [CHR 0x0A] @ link_colour_off d]] \<and>
         sublist url (link_colour_on d @ url @ [CHR 0x0A] @ link_colour_off d)"
proof
  have a: "announce d w display =
     (None, display\<lparr>deploymentStarted := True\<rparr>,
      [EnsureBlankLine, MessageUxItem (MultilineMessage
         (if strconv_ParseBool (Getenv_AZD_DEMO_MODE w) = Some True
            then [portal_prelude @ ''.'', [CHR 0x0A]]
            else [portal_prelude @ '':'',
                  link_colour_on d @ url @ [CHR 0x0A] @ link_colour_off d]))])"
    using assms by (simp add: announce_def portal_prelude_def)
  show "announcements (snd (snd (ReportProgress d w queryStart display))) =
           [if strconv_ParseBool (Getenv_AZD_DEMO_MODE w) = Some True
            then [portal_prelude @ ''.'', [CHR 0x0A]]
            else [portal_prelude @ '':'',
                  link_colour_on d @ url @ [CHR 0x0A] @ link_colour_off d]]"
    unfolding ReportProgress_def a
    by (auto split: sum.splits option.splits prod.splits bool.splits
        dest: logNewlyCreatedResources_announcements)
  show "sublist url (link_colour_on d @ url @ [CHR 0x0A] @ link_colour_off d)"
    by (rule sublist_appendI)
qed

theorem demo_mode_announcement_witness:
  "announcements (snd (snd (ReportProgress sample_deps (sample_world ''1'' []) None
       NewProvisioningProgressDisplay))) =
     [[''You can view detailed progress in the Azure Portal.'', [CHR 0x0A]]] \<and>
   announcements (snd (snd (ReportProgress sample_deps (sample_world ''no'' []) None
       NewProvisioningProgressDisplay))) =
     [[''You can view detailed progress in the Azure Portal:'',
       ''<https://portal/d1'' @ [CHR 0x0A] @ ''>'']]"
  using demo_mode_announcement [of NewProvisioningProgressDisplay "sample_world ''1'' []"
      "''https://portal/d1''" sample_deps None]
    demo_mode_announcement [of NewProvisioningProgressDisplay "sample_world ''no'' []"
      "''https://portal/d1''" sample_deps None]
  by (simp add: NewProvisioningProgressDisplay_def sample_world_def sample_deps_def
      strconv_ParseBool_def portal_prelude_def)

text \<open>
  C8 as stated fails when the portal URL cannot be obtained. \<open>Deployment.Get\<close> succeeds on
  the first call and \<open>AZD_DEMO_MODE\<close> is \<open>1\<close>, but \<open>DeploymentUrl\<close> returns an error: the call
  returns that error and writes nothing, so the prelude line does not remain; the
  tracker has marked the deployment as started, and the next call, whose URL request
  would succeed, writes no announcement either.
\<close>

theorem no_url_no_prelude_counterexample:
  "\<not> deploymentStarted NewProvisioningProgressDisplay \<and>
   deployment_Get failing_url_world = None \<and>
   strconv_ParseBool (Getenv_AZD_DEMO_MODE failing_url_world) = Some True \<and>
   fst (ReportProgress sample_deps failing_url_world None NewProvisioningProgressDisplay) =
     Returned (Some (Error ''no portal URL'')) \<and>
   snd (snd (ReportProgress sample_deps failing_url_world None
               NewProvisioningProgressDisplay)) = [] \<and>
   deploymentStarted (fst (snd (ReportProgress sample_deps failing_url_world None
               NewProvisioningProgressDisplay))) \<and>
   map announcements
     (run_ticks sample_deps
        [(failing_url_world, None), (sample_world ''1'' [], None)]
        NewProvisioningProgressDisplay) = [[], []]"
  by (intro conjI) code_simp+

subsection \<open>Failures of the remote calls\<close>

lemma query_failure_returned:
  assumes "deploymentStarted display"
    and "rm_GetDeploymentResourceOperations w queryStart = Inl err"
  shows "ReportProgress d w queryStart display = (Returned (Some err), display, [])"
  using assms by (simp add: ReportProgress_def announce_def)

lemma first_Get_failure_swallowed:
  assumes "\<not> deploymentStarted display" and "deployment_Get w = Some err"
  shows "ReportProgress d w queryStart display =
           (Returned None, display,
            [LogPrintf (''error while reporting progress: '' @ error_text err)])"
  using assms by (simp add: ReportProgress_def announce_def)

text \<open>
  C4. A failure of \<open>Deployment.Get\<close> before the deployment has started is logged and the
  call returns no error (\<open>first_Get_failure_swallowed\<close>). A failure of the operations query
  is different: the call returns that error and logs nothing. Here on a tracker whose
  deployment has started, with a query that fails.
\<close>

theorem operations_query_failure_surfaces:
  "fst (ReportProgress sample_deps failing_query_world None
          (NewProvisioningProgressDisplay\<lparr>deploymentStarted := True\<rparr>)) =
     Returned (Some (Error ''operations query failed'')) \<and>
   snd (snd (ReportProgress sample_deps failing_query_world None
          (NewProvisioningProgressDisplay\<lparr>deploymentStarted := True\<rparr>))) = []"
  by (simp add: query_failure_returned NewProvisioningProgressDisplay_def
      failing_query_world_def)

subsection \<open>The sample sort meets the contract of sort.Slice\<close>

lemma mset_insert_before_ties: "mset (insert_before_ties lt x ys) = add_mset x (mset ys)"
  by (induction ys) auto

lemma mset_tie_keeping_sort: "mset (tie_keeping_sort lt xs) = mset xs"
  by (induction xs) (auto simp: mset_insert_before_ties)

lemma set_insert_before_ties: "set (insert_before_ties lt x ys) = insert x (set ys)"
  by (induction ys) auto

lemma sorted_insert_before_ties:
  fixes k :: "'a \<Rightarrow> int"
  assumes "\<And>a b. a \<in> insert x (set ys) \<Longrightarrow> b \<in> insert x (set ys) \<Longrightarrow> lt a b = (k a < k b)"
    and "sorted (map k ys)"
  shows "sorted (map k (insert_before_ties lt x ys))"
  using assms by (induction ys) (auto simp: set_insert_before_ties)

lemma sorted_tie_keeping_sort:
  fixes k :: "'a \<Rightarrow> int"
  assumes "\<And>a b. a \<in> set xs \<Longrightarrow> b \<in> set xs \<Longrightarrow> lt a b = (k a < k b)"
  shows "sorted (map k (tie_keeping_sort lt xs))"
  using assms
proof (induction xs)
  case Nil
  then show ?case by simp
next
  case (Cons x xs)
  have s: "set (tie_keeping_sort lt xs) = set xs"
    using mset_tie_keeping_sort [of lt xs] by (rule mset_eq_setD)
  show ?case
    by (simp, rule sorted_insert_before_ties) (use Cons s in auto)
qed

lemma timestamp_Before_key:
  "op_Timestamp a \<noteq> None \<Longrightarrow> op_Timestamp b \<noteq> None \<Longrightarrow>
     timestamp_Before a b = (timestamp_key a < timestamp_key b)"
  by (auto simp: timestamp_Before_def timestamp_key_def)

lemma contract_from_keys:
  assumes "\<not> sort_panics xs" and "mset ys = mset xs"
    and "(\<And>r. r \<in> set xs \<Longrightarrow> op_Timestamp r \<noteq> None) \<Longrightarrow> sorted (map timestamp_key ys)"
  shows "sorted_wrt (\<lambda>a b. \<not> timestamp_Before b a) ys"
proof (cases "2 \<le> length xs")
  case False
  moreover from assms(2) have "length ys = length xs" by (rule mset_eq_length)
  ultimately show ?thesis by (simp add: sorted_wrt01)
next
  case True
  with assms(1) have all: "r \<in> set xs \<Longrightarrow> op_Timestamp r \<noteq> None" for r
    by (auto simp: sort_panics_def list_ex_iff)
  from assms(2) have set: "set ys = set xs" by (rule mset_eq_setD)
  from assms(3) all have "sorted_wrt (\<lambda>a b. timestamp_key a \<le> timestamp_key b) ys"
    by (simp add: sorted_map)
  then show ?thesis
    by (rule sorted_wrt_mono_rel [rotated]) (use all set timestamp_Before_key in auto)
qed

lemma sample_deps_contract: "sort_Slice_contract sample_deps"
  unfolding sort_Slice_contract_def
proof (intro allI impI conjI)
  fix xs :: "operation list"
  assume np: "\<not> sort_panics xs"
  show m: "mset (sort_Slice sample_deps timestamp_Before xs) = mset xs"
    by (simp add: sample_deps_def mset_tie_keeping_sort)
  show "sorted_wrt (\<lambda>a b. \<not> timestamp_Before b a) (sort_Slice sample_deps timestamp_Before xs)"
    using np m
  proof (rule contract_from_keys)
    assume "\<And>r. r \<in> set xs \<Longrightarrow> op_Timestamp r \<noteq> None"
    then show "sorted (map timestamp_key (sort_Slice sample_deps timestamp_Before xs))"
      by (simp add: sample_deps_def sorted_tie_keeping_sort timestamp_Before_key)
  qed
qed

subsection \<open>Order of emission within one tick\<close>

lemma tick_completed:
  assumes "ReportProgress d w q s = (Returned None, s', ev)"
    and "deploymentStarted s \<or> deployment_Get w = None"
    and "rm_GetDeploymentResourceOperations w q = Inr ops"
  shows "\<not> sort_panics (filter (newly (displayedResources s) ProvisioningStateSucceeded) ops) \<and>
         map Some (log_lines ev) =
           map (resourceLogLine d w) (processed d (displayedResources s) ops) \<and>
         map Some (emitted_names ev) =
           map op_ResourceName (filter (\<lambda>r. resolvedTypeName d w r \<noteq> Some [])
             (processed d (displayedResources s) ops)) \<and>
         (\<forall>r \<in> set (processed d (displayedResources s) ops).
            op_Timestamp r \<noteq> None \<and> resolvedTypeName d w r \<noteq> None) \<and>
         (\<forall>n \<in> set (resource_names (processed d (displayedResources s) ops)).
            displayed (displayedResources s') n)"
proof -
  from ReportProgress_anatomy [OF assms(1)] assms(2,3) obtain s0 ev0 ev1 p where
    a: "announce d w s = (None, s0, ev0)"
       "\<not> sort_panics (filter (newly (displayedResources s) ProvisioningStateSucceeded) ops)"
       "logNewlyCreatedResources d w s0 (processed d (displayedResources s) ops)
              (filter (newly (displayedResources s) ProvisioningStateRunning) ops) = (p, s', ev1)"
       "ev = ev0 @ ev1" "Returned None = (if p then Panicked else Returned None)"
    by auto
  from a(5) have np: "\<not> p" by (cases p) auto
  from logNewlyCreatedResources_facts [OF a(3)] np obtain ev2 where
    l: "logResources d w (processed d (displayedResources s) ops) s0 = (False, s', ev2)"
       "emitted_names ev1 = emitted_names ev2" "log_lines ev1 = log_lines ev2"
    by auto
  from announce_facts(2,4) [OF a(1)] a(4) l(2,3)
  have "emitted_names ev = emitted_names ev2" "log_lines ev = log_lines ev2" by simp_all
  with logResources_completed [OF l(1)] a(2) show ?thesis by simp
qed

lemma timestamps_sorted:
  assumes "sorted_wrt (\<lambda>a b. \<not> timestamp_Before b a) xs"
    and "\<And>r. r \<in> set xs \<Longrightarrow> op_Timestamp r \<noteq> None"
  shows "sorted (map timestamp_key xs)" and "map op_Timestamp xs = map Some (map timestamp_key xs)"
proof -
  from assms(1) have "sorted_wrt (\<lambda>a b. timestamp_key a \<le> timestamp_key b) xs"
    by (rule sorted_wrt_mono_rel [rotated]) (use assms(2) timestamp_Before_key in fastforce)
  then show "sorted (map timestamp_key xs)" by (simp add: sorted_map)
  show "map op_Timestamp xs = map Some (map timestamp_key xs)"
    using assms(2) by (fastforce simp: timestamp_key_def)
qed

text \<open>
  C2. A tick that runs to its end writes one log line per processed resource, in this
  order: the newly succeeded resources of the operations query, rearranged so that their
  timestamps never decrease, then the newly failed resources in the order of the query.
  The \<open>DisplayedResource\<close> items follow the same order; they are written for the resources
  whose type display name is not empty. (\<open>sort.Slice\<close> is assumed to meet its contract.)
\<close>

theorem tick_emission_order:
  assumes "sort_Slice_contract d"
    and "ReportProgress d w q s = (Returned None, s', ev)"
    and "deploymentStarted s \<or> deployment_Get w = None"
    and "rm_GetDeploymentResourceOperations w q = Inr ops"
  shows "\<exists>succeeded ts.
           mset succeeded =
             mset (filter (newly (displayedResources s) ProvisioningStateSucceeded) ops) \<and>
           map op_Timestamp succeeded = map Some ts \<and> sorted ts \<and>
           map Some (log_lines ev) =
             map (resourceLogLine d w)
               (succeeded @ filter (newly (displayedResources s) ProvisioningStateFailed) ops) \<and>
           map Some (emitted_names ev) =
             map op_ResourceName (filter (\<lambda>r. resolvedTypeName d w r \<noteq> Some [])
               (succeeded @ filter (newly (displayedResources s) ProvisioningStateFailed) ops))"
proof -
  let ?nd = "filter (newly (displayedResources s) ProvisioningStateSucceeded) ops"
  let ?succeeded = "sort_Slice d timestamp_Before ?nd"
  note c = tick_completed [OF assms(2,3,4)]
  from c have np: "\<not> sort_panics ?nd" by blast
  with assms(1) have m: "mset ?succeeded = mset ?nd"
    and sw: "sorted_wrt (\<lambda>a b. \<not> timestamp_Before b a) ?succeeded"
    by (simp_all add: sort_Slice_contract_def)
  from c have "r \<in> set ?succeeded \<Longrightarrow> op_Timestamp r \<noteq> None" for r
    by (simp add: processed_def)
  from timestamps_sorted [OF sw this]
  have "sorted (map timestamp_key ?succeeded)"
    "map op_Timestamp ?succeeded = map Some (map timestamp_key ?succeeded)" by simp_all
  with m c show ?thesis
    unfolding processed_def by blast
qed

lemma returned_tick:
  "fst (ReportProgress d w q s) = out \<Longrightarrow>
     ReportProgress d w q s =
       (out, fst (snd (ReportProgress d w q s)), snd (snd (ReportProgress d w q s)))"
  by (metis prod.collapse)

theorem tick_emission_order_witness:
  "(\<exists>succeeded ts.
      mset succeeded =
        mset (filter (newly (displayedResources NewProvisioningProgressDisplay)
                        ProvisioningStateSucceeded) sample_operations) \<and>
      map op_Timestamp succeeded = map Some ts \<and> sorted ts \<and>
      map Some (log_lines (snd (snd (ReportProgress sample_deps
          (sample_world ''no'' sample_operations) None NewProvisioningProgressDisplay)))) =
        map (resourceLogLine sample_deps (sample_world ''no'' sample_operations))
          (succeeded @ filter (newly (displayedResources NewProvisioningProgressDisplay)
                                 ProvisioningStateFailed) sample_operations) \<and>
      map Some (emitted_names (snd (snd (ReportProgress sample_deps
          (sample_world ''no'' sample_operations) None NewProvisioningProgressDisplay)))) =
        map op_ResourceName
          (filter (\<lambda>r. resolvedTypeName sample_deps (sample_world ''no'' sample_operations) r
                        \<noteq> Some [])
             (succeeded @ filter (newly (displayedResources NewProvisioningProgressDisplay)
                                    ProvisioningStateFailed) sample_operations))) \<and>
   log_lines (snd (snd (ReportProgress sample_deps
       (sample_world ''no'' sample_operations) None NewProvisioningProgressDisplay))) =
     [''2024-01-01 00:00:01 - Succeeded App Service: a'',
      ''2024-01-01 00:00:02 - Succeeded Microsoft.Sql/servers: b'',
      ''2024-01-01 00:00:03 - Succeeded App Service: c'',
      ''2024-01-01 00:00:01 - Failed Storage account: f''] \<and>
   emitted_names (snd (snd (ReportProgress sample_deps
       (sample_world ''no'' sample_operations) None NewProvisioningProgressDisplay))) =
     [''a'', ''c'', ''f'']"
proof (intro conjI)
  let ?w = "sample_world ''no'' sample_operations"
  have "fst (ReportProgress sample_deps ?w None NewProvisioningProgressDisplay) = Returned None"
    by code_simp
  note r = returned_tick [OF this]
  have g: "deploymentStarted NewProvisioningProgressDisplay \<or> deployment_Get ?w = None"
    by (simp add: sample_world_def)
  have q: "rm_GetDeploymentResourceOperations ?w None = Inr sample_operations"
    by (simp add: sample_world_def)
  show "\<exists>succeeded ts.
      mset succeeded =
        mset (filter (newly (displayedResources NewProvisioningProgressDisplay)
                        ProvisioningStateSucceeded) sample_operations) \<and>
      map op_Timestamp succeeded = map Some ts \<and> sorted ts \<and>
      map Some (log_lines (snd (snd (ReportProgress sample_deps
          (sample_world ''no'' sample_operations) None NewProvisioningProgressDisplay)))) =
        map (resourceLogLine sample_deps (sample_world ''no'' sample_operations))
          (succeeded @ filter (newly (displayedResources NewProvisioningProgressDisplay)
                                 ProvisioningStateFailed) sample_operations) \<and>
      map Some (emitted_names (snd (snd (ReportProgress sample_deps
          (sample_world ''no'' sample_operations) None NewProvisioningProgressDisplay)))) =
        map op_ResourceName
          (filter (\<lambda>r. resolvedTypeName sample_deps (sample_world ''no'' sample_operations) r
                        \<noteq> Some [])
             (succeeded @ filter (newly (displayedResources NewProvisioningProgressDisplay)
                                    ProvisioningStateFailed) sample_operations))"
    by (rule tick_emission_order [OF sample_deps_contract r g q])
  show "log_lines (snd (snd (ReportProgress sample_deps
       (sample_world ''no'' sample_operations) None NewProvisioningProgressDisplay))) =
     [''2024-01-01 00:00:01 - Succeeded App Service: a'',
      ''2024-01-01 00:00:02 - Succeeded Microsoft.Sql/servers: b'',
      ''2024-01-01 00:00:03 - Succeeded App Service: c'',
      ''2024-01-01 00:00:01 - Failed Storage account: f'']"
    by code_simp
  show "emitted_names (snd (snd (ReportProgress sample_deps
       (sample_world ''no'' sample_operations) None NewProvisioningProgressDisplay))) =
     [''a'', ''c'', ''f'']"
    by code_simp
qed

subsection \<open>Ties in the timestamp order\<close>

lemma filter_key_singleton:
  "distinct (map f xs) \<Longrightarrow> a \<in> set xs \<Longrightarrow> filter (\<lambda>x. f a = f x) xs = [a]"
proof (induction xs)
  case Nil
  then show ?case by simp
next
  case (Cons x xs)
  show ?case
  proof (cases "a = x")
    case True
    from Cons.prems(1) have "filter (\<lambda>y. f x = f y) xs = []"
      by (auto simp: filter_empty_conv)
    with True show ?thesis by simp
  next
    case False
    with Cons.prems have a: "a \<in> set xs" by simp
    from Cons.prems(1) have "f x \<notin> f ` set xs" by simp
    with a have "f a \<noteq> f x" by (metis imageI)
    with a Cons show ?thesis by simp
  qed
qed

text \<open>
  C3, as amended. Let \<open>sort.Slice\<close> do what its documentation promises: rearrange the slice
  so that no element is less than an earlier one. In a call that runs to its end, if the
  timestamps of the newly succeeded operations are pairwise different, then these
  operations are logged and emitted in ascending order of timestamp, which is the order a
  stable sort by timestamp gives (\<open>sort_key\<close> is the library's stable insertion sort), and
  the newly failed operations follow in query order. Nothing is said of the relative order
  of operations with equal timestamps.
\<close>

theorem untied_timestamps_fix_the_order:
  assumes "sort_Slice_contract d"
    and "ReportProgress d w q s = (Returned None, s', ev)"
    and "deploymentStarted s \<or> deployment_Get w = None"
    and "rm_GetDeploymentResourceOperations w q = Inr ops"
    and "distinct (map op_Timestamp
           (filter (newly (displayedResources s) ProvisioningStateSucceeded) ops))"
  shows "map Some (log_lines ev) =
           map (resourceLogLine d w)
             (sort_key timestamp_key
                (filter (newly (displayedResources s) ProvisioningStateSucceeded) ops)
              @ filter (newly (displayedResources s) ProvisioningStateFailed) ops) \<and>
         map Some (emitted_names ev) =
           map op_ResourceName (filter (\<lambda>r. resolvedTypeName d w r \<noteq> Some [])
             (sort_key timestamp_key
                (filter (newly (displayedResources s) ProvisioningStateSucceeded) ops)
              @ filter (newly (displayedResources s) ProvisioningStateFailed) ops))"
proof -
  let ?nd = "filter (newly (displayedResources s) ProvisioningStateSucceeded) ops"
  let ?ys = "sort_Slice d timestamp_Before ?nd"
  note c = tick_completed [OF assms(2,3,4)]
  from c have np: "\<not> sort_panics ?nd" by blast
  with assms(1) have m: "mset ?ys = mset ?nd"
    and sw: "sorted_wrt (\<lambda>a b. \<not> timestamp_Before b a) ?ys"
    by (simp_all add: sort_Slice_contract_def)
  from c have ts: "r \<in> set ?ys \<Longrightarrow> op_Timestamp r \<noteq> None" for r
    by (simp add: processed_def)
  from m have set: "set ?ys = set ?nd" by (rule mset_eq_setD)
  have "map op_Timestamp ?nd = map Some (map timestamp_key ?nd)"
    using ts set by (fastforce simp: timestamp_key_def)
  with assms(5) have "distinct (map Some (map timestamp_key ?nd))" by metis
  then have dn: "distinct (map timestamp_key ?nd)"
    using distinct_map [of Some "map timestamp_key ?nd"] by blast
  have "mset (map timestamp_key ?ys) = mset (map timestamp_key ?nd)"
    using m by (metis mset_map)
  with dn have dy: "distinct (map timestamp_key ?ys)"
    by (metis mset_eq_imp_distinct_iff)
  have "sort_key timestamp_key ?nd = ?ys"
  proof (rule properties_for_sort_key [OF m])
    fix k assume k: "k \<in> set ?ys"
    with set have "k \<in> set ?nd" by simp
    from filter_key_singleton [OF dy k] filter_key_singleton [OF dn this]
    show "filter (\<lambda>x. timestamp_key k = timestamp_key x) ?ys =
          filter (\<lambda>x. timestamp_key k = timestamp_key x) ?nd" by simp
  next
    from timestamps_sorted(1) [OF sw ts] show "sorted (map timestamp_key ?ys)" by simp
  qed
  with c show ?thesis unfolding processed_def by simp
qed

theorem untied_timestamps_fix_the_order_witness:
  "distinct (map op_Timestamp
     (filter (newly (displayedResources NewProvisioningProgressDisplay)
        ProvisioningStateSucceeded) sample_operations)) \<and>
   map Some (log_lines (snd (snd (ReportProgress sample_deps
       (sample_world ''no'' sample_operations) None NewProvisioningProgressDisplay)))) =
     map (resourceLogLine sample_deps (sample_world ''no'' sample_operations))
       (sort_key timestamp_key
          (filter (newly (displayedResources NewProvisioningProgressDisplay)
             ProvisioningStateSucceeded) sample_operations)
        @ filter (newly (displayedResources NewProvisioningProgressDisplay)
            ProvisioningStateFailed) sample_operations) \<and>
   map Some (emitted_names (snd (snd (ReportProgress sample_deps
       (sample_world ''no'' sample_operations) None NewProvisioningProgressDisplay)))) =
     map op_ResourceName
       (filter (\<lambda>r. resolvedTypeName sample_deps
                       (sample_world ''no'' sample_operations) r \<noteq> Some [])
          (sort_key timestamp_key
             (filter (newly (displayedResources NewProvisioningProgressDisplay)
                ProvisioningStateSucceeded) sample_operations)
           @ filter (newly (displayedResources NewProvisioningProgressDisplay)
               ProvisioningStateFailed) sample_operations))"
proof -
  let ?w = "sample_world ''no'' sample_operations"
  have "fst (ReportProgress sample_deps ?w None NewProvisioningProgressDisplay)
          = Returned None"
    by code_simp
  note r = returned_tick [OF this]
  have g: "deploymentStarted NewProvisioningProgressDisplay \<or> deployment_Get ?w = None"
    by (simp add: sample_world_def)
  have q: "rm_GetDeploymentResourceOperations ?w None = Inr sample_operations"
    by (simp add: sample_world_def)
  have dt: "distinct (map op_Timestamp
     (filter (newly (displayedResources NewProvisioningProgressDisplay)
        ProvisioningStateSucceeded) sample_operations))"
    by code_simp
  from untied_timestamps_fix_the_order [OF sample_deps_contract r g q dt] dt
  show ?thesis by (intro conjI) simp_all
qed

text \<open>
  On \<open>tied_operations\<close> the sort of the Go library makes one partition around the element
  at index 6 and no draw, so the order of emission is the same whatever the generator
  gives.
\<close>

lemma tied_operations_order_for_all_draws:
  "emitted_names (snd (snd (ReportProgress (go_deps random)
       (sample_world ''no'' tied_operations) None NewProvisioningProgressDisplay))) =
     [''m'', ''g'', ''c'', ''d'', ''e'', ''f'', ''a'', ''h'', ''i'', ''j'', ''k'', ''l'', ''b'']"
  by code_simp

text \<open>
  C3 as stated fails: the code calls \<open>sort.Slice\<close>, which is not stable. Thirteen succeeded
  operations arrive in the order \<open>a\<close>, ..., \<open>m\<close>; \<open>a\<close> to \<open>l\<close> have the same timestamp and
  \<open>m\<close> an earlier one. With the sort of the Go library the call emits \<open>m\<close> first, as it
  must, but then \<open>g\<close> before \<open>c\<close>, \<open>a\<close> after \<open>f\<close> and \<open>b\<close> last: operations with equal
  timestamps do not keep their order from the query.
\<close>

theorem tie_order_counterexample:
  "resource_names tied_operations =
     [''a'', ''b'', ''c'', ''d'', ''e'', ''f'', ''g'', ''h'', ''i'', ''j'', ''k'', ''l'', ''m''] \<and>
   map op_Timestamp tied_operations =
     [Some 1, Some 1, Some 1, Some 1, Some 1, Some 1, Some 1, Some 1, Some 1, Some 1,
      Some 1, Some 1, Some 0] \<and>
   fst (ReportProgress (go_deps zero_draws) (sample_world ''no'' tied_operations) None
          NewProvisioningProgressDisplay) = Returned None \<and>
   emitted_names (snd (snd (ReportProgress (go_deps zero_draws)
       (sample_world ''no'' tied_operations) None NewProvisioningProgressDisplay))) =
     [''m'', ''g'', ''c'', ''d'', ''e'', ''f'', ''a'', ''h'', ''i'', ''j'', ''k'', ''l'', ''b'']"
  by (intro conjI) code_simp+

subsection \<open>A resource name is not emitted in two ticks\<close>

text \<open>
  C1 as stated fails when one operations query holds two operations with the same
  resource name: \<open>displayedResources\<close> is consulted before any of them is processed, so
  both are emitted in that tick. Here two succeeded operations named \<open>app\<close> (a web site and
  a storage account), and the same query a second time.
\<close>

theorem repeated_name_counterexample:
  "sort_Slice_contract sample_deps \<and>
   map emitted_names
     (run_ticks sample_deps
        [(sample_world ''no'' same_name_operations, None),
         (sample_world ''no'' same_name_operations, None)]
        NewProvisioningProgressDisplay) = [[''app'', ''app''], []]"
proof (intro conjI)
  show "sort_Slice_contract sample_deps" by (rule sample_deps_contract)
qed code_simp

text \<open>
  C1, as amended. Let \<open>sort.Slice\<close> do what its documentation promises. In any sequence of
  calls on one tracker, a resource name emitted as a \<open>DisplayedResource\<close> by one call is
  not emitted by any later call. If moreover the operations of each query have pairwise
  different resource names, no name is emitted twice at all, neither within one call nor
  across calls.
\<close>

theorem names_not_repeated_across_ticks:
  assumes "sort_Slice_contract d"
  shows "(\<forall>i j. i < j \<and> j < length (run_ticks d ticks s) \<longrightarrow>
            set (emitted_names (run_ticks d ticks s ! i)) \<inter>
            set (emitted_names (run_ticks d ticks s ! j)) = {}) \<and>
         ((\<forall>(w, q) \<in> set ticks. \<forall>ops. rm_GetDeploymentResourceOperations w q = Inr ops \<longrightarrow>
              distinct (resource_names ops)) \<longrightarrow>
          distinct (concat (map emitted_names (run_ticks d ticks s))))"
proof (intro conjI allI impI)
  fix i j
  assume "i < j \<and> j < length (run_ticks d ticks s)"
  then show "set (emitted_names (run_ticks d ticks s ! i)) \<inter>
          set (emitted_names (run_ticks d ticks s ! j)) = {}"
    using run_ticks_disjoint [OF assms, of i j ticks s] by simp
next
  assume "\<forall>(w, q) \<in> set ticks. \<forall>ops. rm_GetDeploymentResourceOperations w q = Inr ops \<longrightarrow>
            distinct (resource_names ops)"
  then have "\<And>w q ops. (w, q) \<in> set ticks \<Longrightarrow> rm_GetDeploymentResourceOperations w q = Inr ops
               \<Longrightarrow> distinct (resource_names ops)"
    by blast
  then show "distinct (concat (map emitted_names (run_ticks d ticks s)))"
    by (rule run_ticks_distinct [OF assms])
qed

theorem names_not_repeated_across_ticks_witness:
  "map emitted_names
     (run_ticks sample_deps
        [(sample_world ''no'' sample_operations, None),
         (sample_world ''no'' later_operations, None)]
        NewProvisioningProgressDisplay) = [[''a'', ''c'', ''f''], [''r'']] \<and>
   set (emitted_names (run_ticks sample_deps
        [(sample_world ''no'' sample_operations, None),
         (sample_world ''no'' later_operations, None)]
        NewProvisioningProgressDisplay ! 0)) \<inter>
   set (emitted_names (run_ticks sample_deps
        [(sample_world ''no'' sample_operations, None),
         (sample_world ''no'' later_operations, None)]
        NewProvisioningProgressDisplay ! 1)) = {} \<and>
   distinct (concat (map emitted_names (run_ticks sample_deps
        [(sample_world ''no'' sample_operations, None),
         (sample_world ''no'' later_operations, None)]
        NewProvisioningProgressDisplay))) \<and>
   distinct (resource_names sample_operations) \<and>
   distinct (concat (map emitted_names (run_ticks sample_deps
        [(sample_world ''no'' sample_operations, None)]
        NewProvisioningProgressDisplay)))"
proof -
  let ?ticks = "[(sample_world ''no'' sample_operations, None :: int option),
                 (sample_world ''no'' later_operations, None)]"
  let ?run = "run_ticks sample_deps ?ticks NewProvisioningProgressDisplay"
  let ?one = "[(sample_world ''no'' sample_operations, None :: int option)]"
  have names: "map emitted_names ?run = [[''a'', ''c'', ''f''], [''r'']]"
    by code_simp
  then have len: "(0 :: nat) < 1 \<and> 1 < length ?run"
    by (metis length_map length_Cons list.size(3) One_nat_def lessI)
  have d1: "distinct (resource_names sample_operations)" by code_simp
  have d2: "distinct (resource_names later_operations)" by code_simp
  have hyp: "\<forall>(w, q) \<in> set ?ticks. \<forall>ops. rm_GetDeploymentResourceOperations w q = Inr ops \<longrightarrow>
            distinct (resource_names ops)"
    using d1 d2 by (simp add: sample_world_def)
  have hyp1: "\<forall>(w, q) \<in> set ?one. \<forall>ops. rm_GetDeploymentResourceOperations w q = Inr ops \<longrightarrow>
            distinct (resource_names ops)"
    using d1 by (simp add: sample_world_def)
  note two = names_not_repeated_across_ticks [OF sample_deps_contract,
      of ?ticks NewProvisioningProgressDisplay]
  note one = names_not_repeated_across_ticks [OF sample_deps_contract,
      of ?one NewProvisioningProgressDisplay]
  from two len have "set (emitted_names (?run ! 0)) \<inter> set (emitted_names (?run ! 1)) = {}"
    by blast
  moreover from two hyp have "distinct (concat (map emitted_names ?run))" by blast
  moreover from one hyp1
  have "distinct (concat (map emitted_names
          (run_ticks sample_deps ?one NewProvisioningProgressDisplay)))"
    by blast
  ultimately show ?thesis using names d1 by blast
qed

subsection \<open>Resources without a type display name\<close>

lemma run_ticks_never_again:
  assumes "sort_Slice_contract d" and "displayed (displayedResources s) n"
    and "ev \<in> set (run_ticks d ticks s)"
  shows "n \<notin> set (emitted_names ev)"
  using run_ticks_fresh [OF assms(1,3)] assms(2) by blast

text \<open>
  C9. In a tick that runs to its end, take a newly succeeded or failed operation \<open>r\<close>
  whose type display name resolves to the empty string. Then \<open>r\<close> is among the processed
  resources; the \<open>DisplayedResource\<close> items of the tick are those of the processed resources
  with a non-empty display name, so none is written for \<open>r\<close>; its log line is written;
  its name is in \<open>displayedResources\<close> afterwards; and no later call emits that name.
\<close>

theorem empty_display_name_suppressed:
  assumes "sort_Slice_contract d"
    and "ReportProgress d w q s = (Returned None, s', ev)"
    and "deploymentStarted s \<or> deployment_Get w = None"
    and "rm_GetDeploymentResourceOperations w q = Inr ops"
    and "r \<in> set ops"
    and "newly (displayedResources s) ProvisioningStateSucceeded r \<or>
         newly (displayedResources s) ProvisioningStateFailed r"
    and "resolvedTypeName d w r = Some []"
    and "op_ResourceName r = Some name"
  shows "r \<in> set (processed d (displayedResources s) ops) \<and>
         map Some (emitted_names ev) =
           map op_ResourceName (filter (\<lambda>r'. resolvedTypeName d w r' \<noteq> Some [])
             (processed d (displayedResources s) ops)) \<and>
         (\<exists>line. resourceLogLine d w r = Some line \<and> line \<in> set (log_lines ev)) \<and>
         displayed (displayedResources s') name \<and>
         (\<forall>later \<in> set (run_ticks d ticks s'). name \<notin> set (emitted_names later))"
proof -
  note c = tick_completed [OF assms(2,3,4)]
  from c have np: "\<not> sort_panics
      (filter (newly (displayedResources s) ProvisioningStateSucceeded) ops)" by blast
  from assms(5,6) have mem: "r \<in> set (processed d (displayedResources s) ops)"
    unfolding set_processed [OF assms(1) np] by simp
  with assms(8) have "name \<in> set (resource_names (processed d (displayedResources s) ops))"
    unfolding set_resource_names by blast
  with c have disp: "displayed (displayedResources s') name" by blast
  from c mem have "resourceLogLine d w r \<in> set (map Some (log_lines ev))"
    by (metis (no_types, lifting) image_eqI list.set_map)
  then have line: "\<exists>line. resourceLogLine d w r = Some line \<and> line \<in> set (log_lines ev)"
    by auto
  from run_ticks_never_again [OF assms(1) disp]
  have "\<forall>later \<in> set (run_ticks d ticks s'). name \<notin> set (emitted_names later)" by blast
  with mem c line disp show ?thesis by blast
qed

theorem empty_display_name_suppressed_witness:
  "sample_operation ''b'' ''Microsoft.Sql/servers'' ''Succeeded'' 2
     \<in> set (processed sample_deps (displayedResources NewProvisioningProgressDisplay)
              sample_operations) \<and>
   emitted_names (snd (snd (ReportProgress sample_deps
       (sample_world ''no'' sample_operations) None NewProvisioningProgressDisplay))) =
     [''a'', ''c'', ''f''] \<and>
   displayed (displayedResources (fst (snd (ReportProgress sample_deps
       (sample_world ''no'' sample_operations) None NewProvisioningProgressDisplay)))) ''b'' \<and>
   ''b'' \<notin> set (concat (map emitted_names
       (run_ticks sample_deps [(sample_world ''no'' later_operations, None)]
          (fst (snd (ReportProgress sample_deps
             (sample_world ''no'' sample_operations) None NewProvisioningProgressDisplay))))))"
proof -
  let ?w = "sample_world ''no'' sample_operations"
  let ?b = "sample_operation ''b'' ''Microsoft.Sql/servers'' ''Succeeded'' 2"
  have "fst (ReportProgress sample_deps ?w None NewProvisioningProgressDisplay) = Returned None"
    by code_simp
  note r = returned_tick [OF this]
  have g: "deploymentStarted NewProvisioningProgressDisplay \<or> deployment_Get ?w = None"
    by (simp add: sample_world_def)
  have q: "rm_GetDeploymentResourceOperations ?w None = Inr sample_operations"
    by (simp add: sample_world_def)
  have m: "?b \<in> set sample_operations" by (simp add: sample_operations_def)
  have n: "newly (displayedResources NewProvisioningProgressDisplay) ProvisioningStateSucceeded ?b
           \<or> newly (displayedResources NewProvisioningProgressDisplay) ProvisioningStateFailed ?b"
    by code_simp
  have e: "resolvedTypeName sample_deps ?w ?b = Some []" by code_simp
  have nm: "op_ResourceName ?b = Some ''b''" by code_simp
  have names: "emitted_names (snd (snd (ReportProgress sample_deps ?w None
      NewProvisioningProgressDisplay))) = [''a'', ''c'', ''f'']"
    by code_simp
  from empty_display_name_suppressed [OF sample_deps_contract r g q m n e nm,
      of "[(sample_world ''no'' later_operations, None)]"] names
  show ?thesis by auto
qed

subsection \<open>Operations in other provisioning states\<close>

lemma classifyOperations_unclassified:
  "classifyOperations disp (filter (\<lambda>opn. \<not> unclassified opn) ops) acc =
     classifyOperations disp ops acc"
proof (induction ops arbitrary: acc)
  case Nil
  then show ?case by simp
next
  case (Cons opn ops)
  obtain a b c where acc: "acc = (a, b, c)" by (cases acc) auto
  show ?case
  proof (cases "unclassified opn")
    case False
    then show ?thesis
      by (simp add: acc Cons.IH split: option.splits)
  next
    case True
    then obtain props st where p: "op_Properties opn = Some props"
      "ProvisioningState props = Some st"
      "st \<noteq> ProvisioningStateSucceeded" "st \<noteq> ProvisioningStateRunning"
      "st \<noteq> ProvisioningStateFailed"
      "TargetResource props = None \<or>
       (\<exists>target name. TargetResource props = Some target \<and> ResourceName target = Some name)"
      by (auto simp: unclassified_def split: option.splits)
    then have "classifyOperations disp (opn # ops) (a, b, c) = classifyOperations disp ops (a, b, c)"
      by auto
    with True Cons.IH acc show ?thesis by simp
  qed
qed

lemma typeDisplayName_query_irrelevant:
  "typeDisplayName d (w\<lparr>rm_GetDeploymentResourceOperations := f\<rparr>) = typeDisplayName d w"
  by (intro ext) (simp add: typeDisplayName_def)

lemma world_query_irrelevant:
  "announce d (w\<lparr>rm_GetDeploymentResourceOperations := f\<rparr>) s = announce d w s"
  "logResource d (w\<lparr>rm_GetDeploymentResourceOperations := f\<rparr>) r s = logResource d w r s"
  "spinner (w\<lparr>rm_GetDeploymentResourceOperations := f\<rparr>) names = spinner w names"
  by (simp_all add: announce_def logResource_def typeDisplayName_query_irrelevant spinner_def
      cong: option.case_cong sum.case_cong)

lemma logResources_query_irrelevant:
  "logResources d (w\<lparr>rm_GetDeploymentResourceOperations := f\<rparr>) rs s = logResources d w rs s"
  by (induction rs arbitrary: s)
     (simp_all add: world_query_irrelevant cong: prod.case_cong bool.case_cong)

lemma inProgressNames_query_irrelevant:
  "inProgressNames d (w\<lparr>rm_GetDeploymentResourceOperations := f\<rparr>) rs = inProgressNames d w rs"
  by (induction rs) (simp_all add: typeDisplayName_query_irrelevant cong: option.case_cong)

lemma logNewlyCreatedResources_query_irrelevant:
  "logNewlyCreatedResources d (w\<lparr>rm_GetDeploymentResourceOperations := f\<rparr>) s rs ips =
     logNewlyCreatedResources d w s rs ips"
  by (simp add: logNewlyCreatedResources_def logResources_query_irrelevant
      inProgressNames_query_irrelevant world_query_irrelevant
      cong: prod.case_cong bool.case_cong option.case_cong)

lemma unclassified_not_newly:
  "unclassified r \<Longrightarrow> \<not> newly disp ProvisioningStateSucceeded r \<and>
     \<not> newly disp ProvisioningStateFailed r \<and> \<not> newly disp ProvisioningStateRunning r"
  by (auto simp: unclassified_def newly_def op_ProvisioningState_def split: option.splits)

text \<open>
  C10. Operations whose provisioning state is none of Succeeded, Running and Failed leave
  no trace: the call ends the same way, in the same state and with the same console
  output (rows, log lines, spinner) as if the query had not returned them. The name of
  such an operation is in \<open>displayedResources\<close> afterwards only if it was there before or
  another operation of the query, in one of the three states, carries it; so a later
  tick that finds the operation in one of the three states processes it.
\<close>

theorem unclassified_operations_are_ignored:
  assumes "sort_Slice_contract d"
    and "rm_GetDeploymentResourceOperations w q = Inr ops"
    and "ReportProgress d w q s = (out, s', ev)"
  shows "ReportProgress d
           (w\<lparr>rm_GetDeploymentResourceOperations :=
                 (\<lambda>queryStart. Inr (filter (\<lambda>opn. \<not> unclassified opn) ops))\<rparr>) q s
           = (out, s', ev) \<and>
         (\<forall>r \<in> set ops. \<forall>n. unclassified r \<and> op_ResourceName r = Some n \<and>
              displayed (displayedResources s') n \<longrightarrow>
            displayed (displayedResources s) n \<or>
            (\<exists>r' \<in> set ops. \<not> unclassified r' \<and> op_ResourceName r' = Some n))"
proof
  have "ReportProgress d
           (w\<lparr>rm_GetDeploymentResourceOperations :=
                 (\<lambda>queryStart. Inr (filter (\<lambda>opn. \<not> unclassified opn) ops))\<rparr>) q s
        = ReportProgress d w q s"
    using assms(2)
    by (simp add: ReportProgress_def world_query_irrelevant classifyOperations_unclassified
        logNewlyCreatedResources_query_irrelevant
        cong: prod.case_cong bool.case_cong option.case_cong sum.case_cong if_cong)
  with assms(3) show "ReportProgress d
           (w\<lparr>rm_GetDeploymentResourceOperations :=
                 (\<lambda>queryStart. Inr (filter (\<lambda>opn. \<not> unclassified opn) ops))\<rparr>) q s
           = (out, s', ev)" by simp
next
  have "displayed (displayedResources s) n \<or>
        (\<exists>r' \<in> set ops. \<not> unclassified r' \<and> op_ResourceName r' = Some n)"
    if d: "displayed (displayedResources s') n" for n
  proof -
    from ReportProgress_anatomy [OF assms(3)] assms(2)
    consider "displayedResources s' = displayedResources s"
      | s0 ev0 ev1 p where "announce d w s = (None, s0, ev0)"
         "\<not> sort_panics (filter (newly (displayedResources s) ProvisioningStateSucceeded) ops)"
         "logNewlyCreatedResources d w s0 (processed d (displayedResources s) ops)
                (filter (newly (displayedResources s) ProvisioningStateRunning) ops) = (p, s', ev1)"
      by auto
    then show ?thesis
    proof cases
      case 1
      with d show ?thesis by simp
    next
      case 2
      from logNewlyCreatedResources_facts [OF 2(3)] obtain p1 ev2 where
        "logResources d w (processed d (displayedResources s) ops) s0 = (p1, s', ev2)" by blast
      from logResources_displayed [OF this] announce_facts(1) [OF 2(1)] d
      have "displayed (displayedResources s) n \<or>
            n \<in> set (resource_names (processed d (displayedResources s) ops))" by simp
      then show ?thesis
        unfolding set_resource_names set_processed [OF assms(1) 2(2)]
        using unclassified_not_newly by blast
    qed
  qed
  then show "\<forall>r \<in> set ops. \<forall>n. unclassified r \<and> op_ResourceName r = Some n \<and>
              displayed (displayedResources s') n \<longrightarrow>
            displayed (displayedResources s) n \<or>
            (\<exists>r' \<in> set ops. \<not> unclassified r' \<and> op_ResourceName r' = Some n)"
    by blast
qed

theorem unclassified_operations_are_ignored_witness:
  "unclassified (sample_operation ''x'' ''Microsoft.Web/sites'' ''Canceled'' 2) \<and>
   ReportProgress sample_deps
     ((sample_world ''no'' sample_operations)\<lparr>rm_GetDeploymentResourceOperations :=
        (\<lambda>queryStart. Inr (filter (\<lambda>opn. \<not> unclassified opn) sample_operations))\<rparr>)
     None NewProvisioningProgressDisplay =
   ReportProgress sample_deps (sample_world ''no'' sample_operations) None
     NewProvisioningProgressDisplay \<and>
   \<not> displayed (displayedResources (fst (snd (ReportProgress sample_deps
         (sample_world ''no'' sample_operations) None NewProvisioningProgressDisplay)))) ''x'' \<and>
   spinners (snd (snd (ReportProgress sample_deps
         (sample_world ''no'' sample_operations) None NewProvisioningProgressDisplay))) =
     [''Creating/Updating resources (App Service)''] \<and>
   map emitted_names
     (run_ticks sample_deps
        [(sample_world ''no'' sample_operations, None),
         (sample_world ''no'' [sample_operation ''x'' ''Microsoft.Web/sites'' ''Succeeded'' 3],
          None)]
        NewProvisioningProgressDisplay) = [[''a'', ''c'', ''f''], [''x'']]"
proof -
  let ?w = "sample_world ''no'' sample_operations"
  let ?x = "sample_operation ''x'' ''Microsoft.Web/sites'' ''Canceled'' 2"
  let ?r = "ReportProgress sample_deps ?w None NewProvisioningProgressDisplay"
  have u: "unclassified ?x" by code_simp
  have q: "rm_GetDeploymentResourceOperations ?w None = Inr sample_operations"
    by (simp add: sample_world_def)
  have r: "?r = (fst ?r, fst (snd ?r), snd (snd ?r))" by simp
  have m: "?x \<in> set sample_operations" by (simp add: sample_operations_def)
  have nm: "op_ResourceName ?x = Some ''x''" by code_simp
  have before: "\<not> displayed (displayedResources NewProvisioningProgressDisplay) ''x''"
    by code_simp
  have others: "\<not> (\<exists>r' \<in> set sample_operations. \<not> unclassified r' \<and> op_ResourceName r' = Some ''x'')"
    by code_simp
  have sp: "spinners (snd (snd ?r)) = [''Creating/Updating resources (App Service)'']"
    by code_simp
  note t = unclassified_operations_are_ignored [OF sample_deps_contract q r]
  from t have same: "ReportProgress sample_deps
     (?w\<lparr>rm_GetDeploymentResourceOperations :=
        (\<lambda>queryStart. Inr (filter (\<lambda>opn. \<not> unclassified opn) sample_operations))\<rparr>)
     None NewProvisioningProgressDisplay = ?r"
    by simp
  from t m u nm before others
  have "\<not> displayed (displayedResources (fst (snd ?r))) ''x''" by blast
  moreover have "map emitted_names
     (run_ticks sample_deps
        [(sample_world ''no'' sample_operations, None),
         (sample_world ''no'' [sample_operation ''x'' ''Microsoft.Web/sites'' ''Succeeded'' 3],
          None)]
        NewProvisioningProgressDisplay) = [[''a'', ''c'', ''f''], [''x'']]"
    by code_simp
  ultimately show ?thesis using u same sp by simp
qed

section \<open>Properties of the parameter prompter\<close>

lemma prompt_loop_retries:
  assumes "validate env def bad = Inl msg"
  shows "prompt_loop env name def dflt (replicate n (Reply_Text bad) @ rest) =
           (case prompt_loop env name def dflt rest of
              (result, rest', ev) \<Rightarrow>
                (result, rest', concat (replicate n [Prompt name dflt, Message msg]) @ ev))"
  using assms by (induction n) (auto split: prod.splits)

lemma int_bounds_validate:
  "validate env int_bounds_definition ''0'' = Inl (''at least '' @ [CHR 0x27] @ ''1'' @ [CHR 0x27])"
  "validate env int_bounds_definition ''11'' = Inl (''at most '' @ [CHR 0x27] @ ''10'' @ [CHR 0x27])"
  "validate env int_bounds_definition ''5'' = Inr (V_Int 5)"
  by code_simp+

lemma int_bounds_prompts:
  "PromptForParameter env name int_bounds_definition currentValue replies =
     prompt_loop env name int_bounds_definition None replies"
  by (simp add: PromptForParameter_def int_bounds_definition_def plain_definition_def
      resolve_default_def)

text \<open>
  C5. For \<open>{type: int, minValue: 1, maxValue: 10}\<close> and the inputs "0", "11", "5" the prompter
  prompts three times, writes the messages \<open>at least '1'\<close> and \<open>at most '10'\<close>, and returns 5.
  There is no cap on the retries: after any number of inputs "0" the input "5" is still
  accepted.
\<close>

theorem int_bounds_scenario:
  "PromptForParameter env ''testParam'' int_bounds_definition None
     [Reply_Text ''0'', Reply_Text ''11'', Reply_Text ''5''] =
     (Inr (V_Int 5), [],
      [Prompt ''testParam'' None, Message (''at least '' @ [CHR 0x27] @ ''1'' @ [CHR 0x27]),
       Prompt ''testParam'' None, Message (''at most '' @ [CHR 0x27] @ ''10'' @ [CHR 0x27]),
       Prompt ''testParam'' None]) \<and>
   (\<forall>n. PromptForParameter env ''testParam'' int_bounds_definition None
          (replicate n (Reply_Text ''0'') @ [Reply_Text ''5'']) =
        (Inr (V_Int 5), [],
         concat (replicate n [Prompt ''testParam'' None,
                              Message (''at least '' @ [CHR 0x27] @ ''1'' @ [CHR 0x27])])
           @ [Prompt ''testParam'' None]))"
proof (intro conjI allI)
  show "PromptForParameter env ''testParam'' int_bounds_definition None
     [Reply_Text ''0'', Reply_Text ''11'', Reply_Text ''5''] =
     (Inr (V_Int 5), [],
      [Prompt ''testParam'' None, Message (''at least '' @ [CHR 0x27] @ ''1'' @ [CHR 0x27]),
       Prompt ''testParam'' None, Message (''at most '' @ [CHR 0x27] @ ''10'' @ [CHR 0x27]),
       Prompt ''testParam'' None])"
    by (simp add: int_bounds_prompts int_bounds_validate)
next
  fix n
  show "PromptForParameter env ''testParam'' int_bounds_definition None
          (replicate n (Reply_Text ''0'') @ [Reply_Text ''5'']) =
        (Inr (V_Int 5), [],
         concat (replicate n [Prompt ''testParam'' None,
                              Message (''at least '' @ [CHR 0x27] @ ''1'' @ [CHR 0x27])])
           @ [Prompt ''testParam'' None])"
    by (simp add: int_bounds_prompts prompt_loop_retries [OF int_bounds_validate(1)]
        int_bounds_validate)
qed

text \<open>
  C6. For a parameter of type int, a \<open>metadata.azd.default\<close> that is a string is a
  configuration error, raised before anything is read from or written to the console.
  A numeric default is accepted as the effective default (if \<open>allowedValues\<close> permit it),
  and the prompter goes on to prompt with it.
\<close>

theorem int_default_needs_a_number:
  assumes "Type def = T_int"
  shows "(Metadata_azd_default def = Some (V_String s) \<longrightarrow>
            PromptForParameter env name def currentValue replies =
              (Inl ConfigurationError, replies, [])) \<and>
         (Metadata_azd_default def = Some (V_Int n) \<and> allowed def (V_Int n) \<longrightarrow>
            resolve_default def = Inr (Some (V_Int n))) \<and>
         (Metadata_azd_default def = Some (V_Int n) \<and> AllowedValues def = None \<and>
          Metadata_azd_type def = None \<longrightarrow>
            PromptForParameter env name def currentValue replies =
              prompt_loop env name def (Some (V_Int n)) replies)"
  using assms
  by (auto simp: PromptForParameter_def resolve_default_def allowed_def)

theorem int_default_needs_a_number_witness:
  "PromptForParameter sample_env ''testParam''
     ((plain_definition T_int)\<lparr>Metadata_azd_default := Some (V_String ''33'')\<rparr>) None
     [Reply_Text ''33''] = (Inl ConfigurationError, [Reply_Text ''33''], []) \<and>
   PromptForParameter sample_env ''testParam''
     ((plain_definition T_int)\<lparr>Metadata_azd_default := Some (V_Int 33)\<rparr>) None
     [Reply_Text ''33''] = (Inr (V_Int 33), [], [Prompt ''testParam'' (Some (V_Int 33))])"
proof -
  have v: "validate sample_env
      ((plain_definition T_int)\<lparr>Metadata_azd_default := Some (V_Int 33)\<rparr>) ''33'' =
      Inr (V_Int 33)"
    by code_simp
  from int_default_needs_a_number
    [of "(plain_definition T_int)\<lparr>Metadata_azd_default := Some (V_String ''33'')\<rparr>"
        "''33''" sample_env "''testParam''" None "[Reply_Text ''33'']" 33]
    int_default_needs_a_number
    [of "(plain_definition T_int)\<lparr>Metadata_azd_default := Some (V_Int 33)\<rparr>"
        "''33''" sample_env "''testParam''" None "[Reply_Text ''33'']" 33]
    v
  show ?thesis by (simp add: plain_definition_def)
qed

text \<open>
  C7. When \<open>allowedValues\<close> is present and empty the prompter fails at once: no reply is
  consumed and nothing is written to the console.
\<close>

theorem empty_allowed_values_rejected:
  assumes "AllowedValues def = Some []"
  shows "PromptForParameter env name def currentValue replies =
           (Inl ConfigurationError, replies, [])"
  using assms by (simp add: PromptForParameter_def)

theorem empty_allowed_values_rejected_witness:
  "PromptForParameter sample_env ''testParam''
     ((plain_definition T_string)\<lparr>AllowedValues := Some []\<rparr>) None
     [Reply_Text ''a'', Reply_Index 0] =
     (Inl ConfigurationError, [Reply_Text ''a'', Reply_Index 0], [])"
  using empty_allowed_values_rejected
    [of "(plain_definition T_string)\<lparr>AllowedValues := Some []\<rparr>"
        sample_env "''testParam''" None "[Reply_Text ''a'', Reply_Index 0]"]
  by (simp add: plain_definition_def)

end
